theory Spec2Isabelle
  imports Complex_Main "HOL-Library.Sublist" "HOL-Library.Log_Nat"
begin

section \<open>Python string primitives used by the services\<close>

text \<open>
  Python strings are sequences of code points. The model uses \<^typ>\<open>string\<close> and reads
  each \<^typ>\<open>char\<close> as one code point below 256 (ASCII and Latin-1); \<open>length\<close>
  is then Python's \<open>len\<close>.
\<close>

definition is_space :: "char \<Rightarrow> bool" where
  \<comment> \<open>\<open>str.isspace\<close> on one code point below 256; the separators of \<open>split()\<close>
      and the characters removed by \<open>strip()\<close>.\<close>
  "is_space c = ((of_char c :: nat) \<in> {9, 10, 11, 12, 13, 28, 29, 30, 31, 32, 133, 160})"

definition lower_char :: "char \<Rightarrow> char" where
  \<comment> \<open>\<open>str.lower\<close> on one code point below 256: the capital letters are
      \<open>A\<close> to \<open>Z\<close> and 192 to 222 without 215, and the small letter is 32 higher
      (bit 5 set).\<close>
  "lower_char c =
     (let n = (of_char c :: nat)
      in if (65 \<le> n \<and> n \<le> 90) \<or> (192 \<le> n \<and> n \<le> 222 \<and> n \<noteq> 215)
         then (case c of Char b0 b1 b2 b3 b4 b5 b6 b7 \<Rightarrow> Char b0 b1 b2 b3 b4 True b6 b7)
         else c)"

definition lower :: "string \<Rightarrow> string" where
  "lower s = map lower_char s"

definition strip :: "string \<Rightarrow> string" where
  \<comment> \<open>\<open>s.strip()\<close>: whitespace removed at both ends.\<close>
  "strip s = rev (dropWhile is_space (rev (dropWhile is_space s)))"

fun split_from :: "string \<Rightarrow> string \<Rightarrow> string list" where
  \<comment> \<open>The scan behind \<open>s.split()\<close>; the first argument is the word being read.\<close>
  "split_from cur [] = (if cur = [] then [] else [cur])"
| "split_from cur (c # cs) =
     (if is_space c
      then (if cur = [] then split_from [] cs else cur # split_from [] cs)
      else split_from (cur @ [c]) cs)"

definition split :: "string \<Rightarrow> string list" where
  \<comment> \<open>\<open>s.split()\<close> without arguments: the maximal runs of non-whitespace.\<close>
  "split s = split_from [] s"

definition is_terminator :: "char \<Rightarrow> bool" where
  \<comment> \<open>The character class \<open>[.!?]\<close>.\<close>
  "is_terminator c = (c = CHR ''.'' \<or> c = CHR ''!'' \<or> c = CHR ''?'')"

fun re_split_from :: "string \<Rightarrow> bool \<Rightarrow> string \<Rightarrow> string list" where
  \<comment> \<open>The scan behind \<open>re.split(r'[.!?]+', s)\<close>: the fragment being read, and whether
      the previous character belonged to a separator run.\<close>
  "re_split_from cur in_sep [] = [cur]"
| "re_split_from cur in_sep (c # cs) =
     (if is_terminator c
      then (if in_sep then re_split_from [] True cs else cur # re_split_from [] True cs)
      else re_split_from (cur @ [c]) False cs)"

definition re_split :: "string \<Rightarrow> string list" where
  \<comment> \<open>\<open>re.split(r'[.!?]+', s)\<close>: the pieces between maximal runs of terminators,
      empty pieces at both ends included.\<close>
  "re_split s = re_split_from [] False s"

fun count :: "string \<Rightarrow> string \<Rightarrow> nat" where
  \<comment> \<open>\<open>s.count(sub)\<close>, written \<open>count sub s\<close>: occurrences found from the left, the
      search resuming after the end of each one.\<close>
  "count sub [] = (if sub = [] then 1 else 0)"
| "count sub (c # cs) =
     (if sub = [] then Suc (count sub cs)
      else if prefix sub (c # cs) then Suc (count sub (drop (length sub - 1) cs))
      else count sub cs)"

definition startswith :: "string \<Rightarrow> string list \<Rightarrow> bool" where
  \<comment> \<open>\<open>s.startswith(tuple)\<close>.\<close>
  "startswith s ps = list_ex (\<lambda>p. prefix p s) ps"

section \<open>ContentAnalyzer: the functions on plain text\<close>

definition suggest_quiz_count :: "string \<Rightarrow> int" where
  "suggest_quiz_count text =
     (let word_count = length (split text)
      in if word_count < 500 then 3
         else if word_count < 1500 then 5
         else if word_count < 3000 then 8
         else 10)"

fun key_sentences_loop :: "string list \<Rightarrow> string list \<Rightarrow> string list" where
  \<comment> \<open>The \<open>for\<close> loop of \<open>_extract_key_points\<close>, \<open>key_sentences\<close> as accumulator.\<close>
  "key_sentences_loop key_sentences [] = key_sentences"
| "key_sentences_loop key_sentences (sentence # rest) =
     (let sentence = strip sentence
      in if length sentence > 20 \<and> length sentence < 200 \<and>
            \<not> startswith (lower sentence) [''however'', ''therefore'', ''moreover'']
         then key_sentences_loop (key_sentences @ [sentence]) rest
         else key_sentences_loop key_sentences rest)"

definition extract_key_points :: "string \<Rightarrow> string list" where
  "extract_key_points text =
     (let sentences = re_split text
      in take 5 (key_sentences_loop [] (take 10 sentences)))"

definition key_point_ok :: "string \<Rightarrow> bool" where
  \<comment> \<open>The spec's words for a kept fragment: trimmed length strictly between 20 and 200,
      and no banned lead-in at its start, whatever the case of the letters.\<close>
  "key_point_ok s =
     (20 < length s \<and> length s < 200 \<and>
      \<not> (\<exists>p \<in> set [''however'', ''therefore'', ''moreover'']. lower (take (length p) s) = p))"

section \<open>Python values and errors\<close>

datatype error = AttributeError | TypeError | KeyError | ZeroDivisionError | CollaboratorError

text \<open>
  What \<open>json.loads\<close> returns: \<open>None\<close>, booleans, integers, floats, strings, lists and
  dictionaries with string keys. A dictionary is an association list with distinct keys,
  in insertion order.
\<close>

datatype pyval =
    PNone
  | PBool bool
  | PInt int
  | PFloat rat
  | PStr string
  | PList "pyval list"
  | PDict "(string \<times> pyval) list"

definition get :: "(string \<times> pyval) list \<Rightarrow> string \<Rightarrow> pyval" where
  \<comment> \<open>\<open>d.get(k)\<close>: \<open>None\<close> for a missing key.\<close>
  "get d k = (case map_of d k of None \<Rightarrow> PNone | Some v \<Rightarrow> v)"

definition get_default :: "(string \<times> pyval) list \<Rightarrow> string \<Rightarrow> pyval \<Rightarrow> pyval" where
  \<comment> \<open>\<open>d.get(k, default)\<close>.\<close>
  "get_default d k dflt = (case map_of d k of None \<Rightarrow> dflt | Some v \<Rightarrow> v)"

definition index :: "(string \<times> pyval) list \<Rightarrow> string \<Rightarrow> error + pyval" where
  \<comment> \<open>\<open>d[k]\<close>: KeyError for a missing key.\<close>
  "index d k = (case map_of d k of None \<Rightarrow> Inl KeyError | Some v \<Rightarrow> Inr v)"

fun isinstance_str :: "pyval \<Rightarrow> bool" where
  "isinstance_str (PStr s) = True"
| "isinstance_str v = False"

fun isinstance_list :: "pyval \<Rightarrow> bool" where
  "isinstance_list (PList xs) = True"
| "isinstance_list v = False"

fun isinstance_int :: "pyval \<Rightarrow> bool" where
  \<comment> \<open>\<open>isinstance(v, int)\<close>: \<open>bool\<close> is a subclass of \<open>int\<close> in Python.\<close>
  "isinstance_int (PInt n) = True"
| "isinstance_int (PBool b) = True"
| "isinstance_int v = False"

fun len :: "pyval \<Rightarrow> error + nat" where
  \<comment> \<open>\<open>len(v)\<close>: TypeError for a value without a length.\<close>
  "len (PStr s) = Inr (length s)"
| "len (PList xs) = Inr (length xs)"
| "len (PDict d) = Inr (length d)"
| "len v = Inl TypeError"

fun number :: "pyval \<Rightarrow> error + rat" where
  \<comment> \<open>The numeric value a comparison with an integer uses (\<open>True\<close> is 1, \<open>False\<close> is 0);
      TypeError for a value that is not a number.\<close>
  "number (PInt n) = Inr (of_int n)"
| "number (PBool b) = Inr (if b then 1 else 0)"
| "number (PFloat x) = Inr x"
| "number v = Inl TypeError"

section \<open>LLMGenerator\<close>

record quiz_item =
  question :: pyval
  options :: pyval
  correct_answer :: pyval
  explanation :: pyval
  difficulty :: pyval
  concept :: pyval

definition quiz_item_ok :: "(string \<times> pyval) list \<Rightarrow> error + bool" where
  \<comment> \<open>The condition of the \<open>if\<close> in \<open>_validate_quiz\<close>; \<open>and\<close> evaluates its right
      operand only when the left one holds.\<close>
  "quiz_item_ok q =
     (if \<not> isinstance_str (get q ''question'') then Inr False
      else if \<not> isinstance_list (get q ''options'') then Inr False
      else case len (get_default q ''options'' (PList [])) of
        Inl e \<Rightarrow> Inl e
      | Inr n \<Rightarrow>
          if n \<noteq> 4 then Inr False
          else if \<not> isinstance_int (get q ''correct_answer'') then Inr False
          else case number (get_default q ''correct_answer'' (PInt (- 1))) of
            Inl e \<Rightarrow> Inl e
          | Inr a \<Rightarrow> Inr (0 \<le> a \<and> a < 4))"

definition make_item :: "(string \<times> pyval) list \<Rightarrow> error + quiz_item" where
  \<comment> \<open>The dictionary appended for a valid record.\<close>
  "make_item q =
     (case index q ''question'' of Inl e \<Rightarrow> Inl e | Inr qu \<Rightarrow>
      case index q ''options'' of Inl e \<Rightarrow> Inl e | Inr os \<Rightarrow>
      case index q ''correct_answer'' of Inl e \<Rightarrow> Inl e | Inr ca \<Rightarrow>
        Inr \<lparr>question = qu, options = os, correct_answer = ca,
             explanation = get_default q ''explanation'' (PStr []),
             difficulty = get_default q ''difficulty'' (PStr ''Intermediate''),
             concept = get_default q ''concept'' (PStr ''General'')\<rparr>)"

fun validate_loop :: "quiz_item list \<Rightarrow> pyval list \<Rightarrow> error + quiz_item list" where
  \<comment> \<open>The \<open>for q in quiz_data\<close> loop, \<open>validated_quiz\<close> as accumulator. \<open>q.get\<close>
      exists on dictionaries only.\<close>
  "validate_loop validated_quiz [] = Inr validated_quiz"
| "validate_loop validated_quiz (PDict q # rest) =
     (case quiz_item_ok q of
        Inl e \<Rightarrow> Inl e
      | Inr True \<Rightarrow>
          (case make_item q of
             Inl e \<Rightarrow> Inl e
           | Inr item \<Rightarrow> validate_loop (validated_quiz @ [item]) rest)
      | Inr False \<Rightarrow> validate_loop validated_quiz rest)"
| "validate_loop validated_quiz (v # rest) = Inl AttributeError"

fun validate_quiz :: "pyval \<Rightarrow> error + quiz_item list" where
  \<comment> \<open>\<open>_validate_quiz\<close>. Iterating a dictionary yields its keys, iterating a string its
      characters; the other values are not iterable.\<close>
  "validate_quiz (PList qs) = validate_loop [] qs"
| "validate_quiz (PDict d) = validate_loop [] (map (\<lambda>(k, v). PStr k) d)"
| "validate_quiz (PStr s) = validate_loop [] (map (\<lambda>c. PStr [c]) s)"
| "validate_quiz v = Inl TypeError"

definition generate_fallback_quiz :: "string \<Rightarrow> quiz_item list" where
  "generate_fallback_quiz content =
     [\<lparr>question = PStr ''What is the main topic of this document?'',
       options = PList [PStr ''Topic A'', PStr ''Topic B'', PStr ''Topic C'', PStr ''Topic D''],
       correct_answer = PInt 0,
       explanation = PStr ''Fallback question generated due to processing error.'',
       difficulty = PStr ''Basic'',
       concept = PStr ''General''\<rparr>]"

text \<open>
  The LLM collaborator and \<open>json.loads\<close> are not part of the repository. A call
  \<open>self.client.chat.completions.create(...)\<close> followed by reading
  \<open>response.choices[0].message.content\<close> either raises or yields the content; the outcome
  of the call made with the prompt is the parameter \<open>reply\<close> (a reply without text
  makes \<open>json.loads\<close> raise and counts as \<open>LLM_raises\<close>). \<open>json.loads\<close> is the
  parameter \<open>loads\<close>, \<open>None\<close> when it raises. The prompt is built before the \<open>try\<close>
  block, from the content and an analysis of the shape \<open>analyze\<close> returns; building it
  is not modelled.
\<close>

datatype llm_reply = LLM_raises | LLM_content string

definition generate_quiz ::
  "(string \<Rightarrow> pyval option) \<Rightarrow> llm_reply \<Rightarrow> string \<Rightarrow> quiz_item list" where
  \<comment> \<open>The \<open>try\<close> block of \<open>generate_quiz\<close>: every exception raised in it, by the
      request, by \<open>json.loads\<close> or by \<open>_validate_quiz\<close>, ends in the fallback.\<close>
  "generate_quiz loads reply content =
     (case reply of
        LLM_raises \<Rightarrow> generate_fallback_quiz content
      | LLM_content text \<Rightarrow>
          (case loads text of
             None \<Rightarrow> generate_fallback_quiz content
           | Some quiz_data \<Rightarrow>
               (case validate_quiz quiz_data of
                  Inl e \<Rightarrow> generate_fallback_quiz content
                | Inr quiz \<Rightarrow> quiz)))"

function str_nat :: "nat \<Rightarrow> string" where
  \<comment> \<open>The decimal digits of a natural number, as an f-string prints it.\<close>
  "str_nat n =
     (if n < 10 then [''0123456789'' ! n]
      else str_nat (n div 10) @ [''0123456789'' ! (n mod 10)])"
  by pat_completeness auto
termination
  by (relation "measure id") auto

declare str_nat.simps [simp del]

definition generate_fallback_summary :: "string \<Rightarrow> pyval" where
  "generate_fallback_summary content =
     (let words = split content
      in PDict
        [(''overview'', PStr (''This document contains approximately '' @
            str_nat (length words) @ '' words of educational content.'')),
         (''main_points'', PList [PStr ''Content processing in progress'']),
         (''key_takeaways'', PList [PStr ''Please try again later'']),
         (''complexity_level'', PStr ''Unknown'')])"

definition generate_summary ::
  "(string \<Rightarrow> pyval option) \<Rightarrow> llm_reply \<Rightarrow> string \<Rightarrow> pyval" where
  \<comment> \<open>The \<open>try\<close> block of \<open>generate_summary\<close>: the parsed reply is returned as it is.\<close>
  "generate_summary loads reply content =
     (case reply of
        LLM_raises \<Rightarrow> generate_fallback_summary content
      | LLM_content text \<Rightarrow>
          (case loads text of
             None \<Rightarrow> generate_fallback_summary content
           | Some summary \<Rightarrow> summary))"

definition complexity_levels :: "pyval set" where
  \<comment> \<open>The enum of the summary's \<open>complexity_level\<close>, as the prompt lists it.\<close>
  "complexity_levels = {PStr ''Basic'', PStr ''Intermediate'', PStr ''Advanced''}"

definition record_kept :: "(string \<times> pyval) list \<Rightarrow> bool" where
  \<comment> \<open>The records that pass: a string question, a list of exactly 4 options, and a
      correct answer that is an integer in \<open>[0,4)\<close> or a boolean.\<close>
  "record_kept q =
     ((case map_of q ''question'' of Some (PStr s) \<Rightarrow> True | _ \<Rightarrow> False) \<and>
      (case map_of q ''options'' of Some (PList os) \<Rightarrow> length os = 4 | _ \<Rightarrow> False) \<and>
      (case map_of q ''correct_answer'' of
         Some (PInt n) \<Rightarrow> 0 \<le> n \<and> n < 4
       | Some (PBool b) \<Rightarrow> True
       | _ \<Rightarrow> False))"

definition kept_item :: "(string \<times> pyval) list \<Rightarrow> quiz_item" where
  \<comment> \<open>The item built from a record that passes: its three checked fields as they are,
      the other three with their defaults when the key is missing.\<close>
  "kept_item q =
     \<lparr>question = get q ''question'', options = get q ''options'',
      correct_answer = get q ''correct_answer'',
      explanation = (case map_of q ''explanation'' of None \<Rightarrow> PStr [] | Some v \<Rightarrow> v),
      difficulty = (case map_of q ''difficulty'' of None \<Rightarrow> PStr ''Intermediate'' | Some v \<Rightarrow> v),
      concept = (case map_of q ''concept'' of None \<Rightarrow> PStr ''General'' | Some v \<Rightarrow> v)\<rparr>"

definition field :: "pyval \<Rightarrow> string \<Rightarrow> pyval" where
  \<comment> \<open>The value a reader of the dictionary finds under a key; \<open>None\<close> when there is none.\<close>
  "field v k = (case v of PDict d \<Rightarrow> get d k | _ \<Rightarrow> PNone)"

section \<open>The NLP collaborator\<close>

text \<open>
  spaCy is not part of the repository. \<open>self.nlp(text)\<close> either raises or returns a
  document: its tokens with the flags the analyzer reads, its sentences, its named
  entities (text and label) and the texts of its noun chunks. The collaborator is the
  parameter \<open>nlp\<close> of every function that calls it.
\<close>

record token =
  tok_text :: string
  is_punct :: bool
  is_alpha :: bool

record doc =
  tokens :: "token list"
  sents :: "token list list"
  ents :: "(string \<times> string) list"
  noun_chunks :: "string list"

type_synonym nlp = "string \<Rightarrow> error + doc"

section \<open>ContentAnalyzer: topics\<close>

definition upper_char :: "char \<Rightarrow> char" where
  \<comment> \<open>The capital of an ASCII small letter; other characters as they are.\<close>
  "upper_char c =
     (let n = (of_char c :: nat)
      in if 97 \<le> n \<and> n \<le> 122
         then (case c of Char b0 b1 b2 b3 b4 b5 b6 b7 \<Rightarrow> Char b0 b1 b2 b3 b4 False b6 b7)
         else c)"

definition is_ascii_letter :: "char \<Rightarrow> bool" where
  "is_ascii_letter c =
     (let n = (of_char c :: nat) in (65 \<le> n \<and> n \<le> 90) \<or> (97 \<le> n \<and> n \<le> 122))"

fun title_from :: "bool \<Rightarrow> string \<Rightarrow> string" where
  \<comment> \<open>The scan behind \<open>s.title()\<close> on ASCII text (the topic names are ASCII): a letter
      after a letter becomes small, any other letter capital.\<close>
  "title_from prev_letter [] = []"
| "title_from prev_letter (c # cs) =
     (if is_ascii_letter c
      then (if prev_letter then lower_char c else upper_char c) # title_from True cs
      else c # title_from False cs)"

definition title :: "string \<Rightarrow> string" where
  "title s = title_from False s"

definition topic_keywords :: "(string \<times> string list) list" where
  \<comment> \<open>The dictionary literal of \<open>_identify_topics\<close>, in declaration order (the order in
      which \<open>items()\<close> yields it).\<close>
  "topic_keywords =
     [(''biology'', [''cell'', ''organism'', ''evolution'', ''genetics'', ''ecosystem'']),
      (''chemistry'', [''molecule'', ''atom'', ''reaction'', ''compound'', ''element'']),
      (''physics'', [''energy'', ''force'', ''motion'', ''wave'', ''particle'']),
      (''mathematics'', [''equation'', ''theorem'', ''proof'', ''function'', ''variable'']),
      (''history'', [''century'', ''war'', ''empire'', ''revolution'', ''civilization'']),
      (''literature'', [''author'', ''novel'', ''poem'', ''character'', ''theme''])]"

definition keyword_sum :: "string \<Rightarrow> string list \<Rightarrow> nat" where
  \<comment> \<open>\<open>sum(text_lower.count(keyword) for keyword in keywords)\<close>.\<close>
  "keyword_sum text_lower keywords = sum_list (map (\<lambda>keyword. count keyword text_lower) keywords)"

fun topics_loop :: "string \<Rightarrow> string list \<Rightarrow> (string \<times> string list) list \<Rightarrow> string list" where
  \<comment> \<open>The \<open>for topic, keywords in topic_keywords.items()\<close> loop, \<open>topics\<close> as
      accumulator.\<close>
  "topics_loop text_lower topics [] = topics"
| "topics_loop text_lower topics ((topic, keywords) # rest) =
     (if keyword_sum text_lower keywords > 3
      then topics_loop text_lower (topics @ [title topic]) rest
      else topics_loop text_lower topics rest)"

definition identify_topics :: "nlp \<Rightarrow> string \<Rightarrow> error + string list" where
  \<comment> \<open>\<open>_identify_topics\<close>: the document the collaborator returns is not read.\<close>
  "identify_topics nlp text =
     (case nlp text of
        Inl e \<Rightarrow> Inl e
      | Inr doc \<Rightarrow> Inr (topics_loop (lower text) [] topic_keywords))"

fun occurrences :: "string \<Rightarrow> string \<Rightarrow> nat" where
  \<comment> \<open>The spec's count: every position at which \<open>sub\<close> occurs counts, also where two
      occurrences overlap.\<close>
  "occurrences sub [] = (if sub = [] then 1 else 0)"
| "occurrences sub (c # cs) = (if prefix sub (c # cs) then 1 else 0) + occurrences sub cs"

definition occurrence_sum :: "string \<Rightarrow> string list \<Rightarrow> nat" where
  \<comment> \<open>The spec's sum for one topic, over all occurrences of its keywords.\<close>
  "occurrence_sum text_lower keywords =
     sum_list (map (\<lambda>keyword. occurrences keyword text_lower) keywords)"

definition unbordered :: "string \<Rightarrow> bool" where
  \<comment> \<open>No proper, non-empty end of the word is also its beginning: two occurrences of such
      a word cannot overlap.\<close>
  "unbordered sub = list_all (\<lambda>k. \<not> prefix (drop k sub) sub) [1..<length sub]"

definition no_doc :: doc where
  \<comment> \<open>The document of the empty text: no token, no sentence.\<close>
  "no_doc = \<lparr>tokens = [], sents = [], ents = [], noun_chunks = []\<rparr>"

section \<open>Python floats\<close>

text \<open>
  A Python float is an IEEE 754 double. The model keeps the value of a finite double as a
  rational number, and rounds the exact result of every operation to the nearest double,
  ties to the even significand of 53 bits. The exponent range is not modelled: the
  numbers computed here are quotients of counts and small constants, far from overflow
  and underflow.
\<close>

definition round_half_even :: "rat \<Rightarrow> int" where
  \<comment> \<open>The nearest integer, a tie going to the even one.\<close>
  "round_half_even x =
     (let f = \<lfloor>x\<rfloor>; d = x - of_int f
      in if d < 1 / 2 then f else if 1 / 2 < d then f + 1 else if even f then f else f + 1)"

definition ilog2 :: "rat \<Rightarrow> int" where
  \<comment> \<open>For \<open>x > 0\<close>, the exponent \<open>e\<close> with \<open>2^e \<le> x < 2^(e+1)\<close>, from the bit lengths
      of numerator and denominator.\<close>
  "ilog2 x =
     (case quotient_of x of (p, q) \<Rightarrow>
        let e = bitlen p - bitlen q in if 2 powi e \<le> x then e else e - 1)"

definition fl :: "rat \<Rightarrow> rat" where
  \<comment> \<open>The double nearest to \<open>x\<close>: \<open>x\<close> rounded to a multiple of \<open>2^(e-52)\<close>.\<close>
  "fl x =
     (if x = 0 then 0
      else let u = 2 powi (ilog2 \<bar>x\<bar> - 52) in of_int (round_half_even (x / u)) * u)"

definition round2 :: "rat \<Rightarrow> rat" where
  \<comment> \<open>\<open>round(x, 2)\<close> on a float: the exact value of \<open>x\<close> rounded to 2 decimals, ties to
      even, and the double nearest to that decimal.\<close>
  "round2 x = fl (of_int (round_half_even (x * 100)) / 100)"

section \<open>ContentAnalyzer: readability, difficulty, concepts, sections\<close>

definition calculate_readability :: "string \<Rightarrow> rat" where
  "calculate_readability text =
     (if text = [] then 0
      else
        let sentences = length (re_split text);
            words = length (split text);
            avg_sentence_length =
              (if sentences > 0 then fl (of_nat words / of_nat sentences) else of_nat words);
            readability = max 0 (min 1 (fl (1 - fl (fl (avg_sentence_length - 10) / 20))))
        in round2 readability)"

definition readability_formula :: "string \<Rightarrow> rat" where
  \<comment> \<open>The spec's formula in exact arithmetic: \<open>1 - (avg - 10) / 20\<close> clamped to
      \<open>[0,1]\<close>, \<open>avg\<close> being the word count divided by the number of fragments.\<close>
  "readability_formula text =
     max 0 (min 1
       (1 - (of_nat (length (split text)) / of_nat (length (re_split text)) - 10) / 20))"

definition assess_difficulty :: "nlp \<Rightarrow> string \<Rightarrow> error + string" where
  \<comment> \<open>\<open>_assess_difficulty\<close>: the first division has no guard, the second has one.\<close>
  "assess_difficulty nlp text =
     (case nlp text of
        Inl e \<Rightarrow> Inl e
      | Inr doc \<Rightarrow>
          if length (sents doc) = 0 then Inl ZeroDivisionError
          else
            let avg_sentence_length =
                  fl (of_nat (length (filter (\<lambda>token. \<not> is_punct token) (tokens doc))) /
                      of_nat (length (sents doc)));
                complex_words =
                  length (filter (\<lambda>token. length (tok_text token) > 6 \<and> is_alpha token)
                    (tokens doc));
                total_words = length (filter is_alpha (tokens doc));
                complexity_ratio =
                  (if total_words > 0 then fl (of_nat complex_words / of_nat total_words) else 0)
            in Inr (if avg_sentence_length > 20 \<or> complexity_ratio > fl (3 / 10)
                    then ''Advanced''
                    else if avg_sentence_length > 15 \<or> complexity_ratio > fl (2 / 10)
                    then ''Intermediate''
                    else ''Basic''))"

record key_concept =
  kc_concept :: string
  kc_frequency :: nat
  kc_importance :: rat

fun counter :: "(string \<times> nat) list \<Rightarrow> string list \<Rightarrow> (string \<times> nat) list" where
  \<comment> \<open>\<open>Counter(xs)\<close>: the counts, keys in the order of their first occurrence.\<close>
  "counter counts [] = counts"
| "counter counts (x # xs) =
     counter
       (if x \<in> fst ` set counts
        then map (\<lambda>(k, n). if k = x then (k, Suc n) else (k, n)) counts
        else counts @ [(x, 1)])
       xs"

definition most_common :: "nat \<Rightarrow> (string \<times> nat) list \<Rightarrow> (string \<times> nat) list" where
  \<comment> \<open>\<open>most_common(n)\<close>: by falling count, equal counts in insertion order.\<close>
  "most_common n counts = take n (sort_key (\<lambda>(k, c). - int c) counts)"

fun key_concepts_loop :: "key_concept list \<Rightarrow> (string \<times> nat) list \<Rightarrow> key_concept list" where
  \<comment> \<open>The loop over \<open>most_common(20)\<close>: \<open>phrase\<close> is the source's \<open>concept\<close>,
      \<open>n\<close> its \<open>count\<close>.\<close>
  "key_concepts_loop key_concepts [] = key_concepts"
| "key_concepts_loop key_concepts ((phrase, n) # rest) =
     (if n > 1 \<and> length phrase > 3
      then key_concepts_loop
        (key_concepts @
          [\<lparr>kc_concept = phrase, kc_frequency = n,
            kc_importance = min (fl (of_nat n * fl (1 / 10))) 1\<rparr>])
        rest
      else key_concepts_loop key_concepts rest)"

definition extract_key_concepts :: "nlp \<Rightarrow> string \<Rightarrow> error + key_concept list" where
  \<comment> \<open>\<open>_extract_key_concepts\<close>: the named entities are computed and not used.\<close>
  "extract_key_concepts nlp text =
     (case nlp text of
        Inl e \<Rightarrow> Inl e
      | Inr doc \<Rightarrow>
          let noun_phrases = filter (\<lambda>chunk. length (split chunk) \<le> 3) (noun_chunks doc);
              concept_counts = counter [] noun_phrases
          in Inr (key_concepts_loop [] (most_common 20 concept_counts)))"

record section_summary =
  sec_title :: string
  sec_word_count :: nat
  sec_key_points :: "string list"
  sec_quiz_potential :: nat

fun analyze_sections_loop ::
  "section_summary list \<Rightarrow> (string \<times> string) list list \<Rightarrow> section_summary list" where
  \<comment> \<open>The loop of \<open>_analyze_sections\<close>; a section is a dictionary of strings.\<close>
  "analyze_sections_loop analyzed [] = analyzed"
| "analyze_sections_loop analyzed (section # rest) =
     (let content = (case map_of section ''content'' of None \<Rightarrow> [] | Some c \<Rightarrow> c)
      in if length (strip content) < 50 then analyze_sections_loop analyzed rest
         else analyze_sections_loop
           (analyzed @
             [\<lparr>sec_title =
                 (case map_of section ''title'' of None \<Rightarrow> ''Untitled'' | Some t \<Rightarrow> t),
               sec_word_count = length (split content),
               sec_key_points = extract_key_points content,
               sec_quiz_potential = length (split content) div 50\<rparr>])
           rest)"

definition analyze_sections :: "(string \<times> string) list list \<Rightarrow> section_summary list" where
  "analyze_sections sections = analyze_sections_loop [] sections"

record parsed_document =
  doc_text :: string
  doc_sections :: "(string \<times> string) list list"

record analysis =
  key_concepts :: "key_concept list"
  difficulty_level :: string
  topics :: "string list"
  section_analysis :: "section_summary list"
  readability_score :: rat
  suggested_quiz_count :: int

definition analyze :: "nlp \<Rightarrow> parsed_document \<Rightarrow> error + analysis" where
  \<comment> \<open>\<open>analyze\<close>: the entries of the returned dictionary are computed in the order
      written, and the first exception ends the call.\<close>
  "analyze nlp parsed_document =
     (let text = doc_text parsed_document; sections = doc_sections parsed_document
      in case extract_key_concepts nlp text of Inl e \<Rightarrow> Inl e | Inr kc \<Rightarrow>
         case assess_difficulty nlp text of Inl e \<Rightarrow> Inl e | Inr dl \<Rightarrow>
         case identify_topics nlp text of Inl e \<Rightarrow> Inl e | Inr ts \<Rightarrow>
           Inr \<lparr>key_concepts = kc, difficulty_level = dl, topics = ts,
                section_analysis = analyze_sections sections,
                readability_score = calculate_readability text,
                suggested_quiz_count = suggest_quiz_count text\<rparr>)"

section \<open>LearningOrchestrator\<close>

text \<open>
  The storage, spaced-repetition and progress collaborators are not part of the
  repository. They are the fields of \<open>services\<close>, functions on a state \<open>'s\<close> that only
  they read and change; \<open>'t\<close> is the type of a review time. The questions the storage
  returns are the quiz items that were stored, and the answers are integers.
\<close>

record answer_result =
  question_id :: nat
  user_answer :: int
  result_correct_answer :: pyval
  is_correct :: bool
  result_explanation :: pyval

record ('s, 't) services =
  get_quiz_questions :: "'s \<Rightarrow> string \<Rightarrow> quiz_item list"
  update_schedule :: "string \<Rightarrow> string \<Rightarrow> rat \<Rightarrow> 's \<Rightarrow> 's"
  record_attempt :: "string \<Rightarrow> string \<Rightarrow> rat \<Rightarrow> answer_result list \<Rightarrow> 's \<Rightarrow> 's"
  get_next_review_time :: "'s \<Rightarrow> string \<Rightarrow> string \<Rightarrow> 't"

record next_step =
  action :: string
  message :: string

record 't attempt =
  score :: rat
  correct_answers :: nat
  total_questions :: nat
  results :: "answer_result list"
  next_review :: 't
  next_action :: next_step
  improvement_suggestions :: "string list"

fun equals_int :: "pyval \<Rightarrow> int \<Rightarrow> bool" where
  \<comment> \<open>\<open>v == n\<close> for an integer \<open>n\<close>: numbers compare by value, \<open>True\<close> being 1 and
      \<open>False\<close> 0; any other value is unequal.\<close>
  "equals_int (PInt m) n = (m = n)"
| "equals_int (PBool b) n = ((if b then 1 else 0) = n)"
| "equals_int (PFloat x) n = (x = of_int n)"
| "equals_int v n = False"

fun attempt_loop ::
  "nat \<Rightarrow> nat \<Rightarrow> answer_result list \<Rightarrow> (quiz_item \<times> int) list \<Rightarrow> nat \<times> answer_result list" where
  \<comment> \<open>The loop over \<open>enumerate(zip(quiz_questions, answers))\<close>: the index \<open>i\<close>, and
      \<open>correct_answers\<close> and \<open>results\<close> as accumulators.\<close>
  "attempt_loop i correct rs [] = (correct, rs)"
| "attempt_loop i correct rs ((q, answer) # rest) =
     (let correct_now = equals_int (correct_answer q) answer
      in attempt_loop (Suc i) (if correct_now then correct + 1 else correct)
           (rs @ [\<lparr>question_id = i, user_answer = answer,
                    result_correct_answer = correct_answer q,
                    is_correct = correct_now,
                    result_explanation = explanation q\<rparr>])
           rest)"

definition determine_next_action :: "rat \<Rightarrow> answer_result list \<Rightarrow> next_step" where
  "determine_next_action sc rs =
     (if sc \<ge> 90
      then \<lparr>action = ''advance'', message = ''Excellent! Ready for new material.''\<rparr>
      else if sc \<ge> 70
      then \<lparr>action = ''review_weak'',
             message = ''Good job! Review weak areas before advancing.''\<rparr>
      else \<lparr>action = ''repeat'',
             message = ''Practice more with this material before advancing.''\<rparr>)"

definition generate_improvement_suggestions :: "answer_result list \<Rightarrow> string list" where
  "generate_improvement_suggestions rs =
     (let incorrect_concepts = filter (\<lambda>r. \<not> is_correct r) rs;
          suggestions1 =
            (if of_nat (length incorrect_concepts) > fl (of_nat (length rs) * fl (1 / 2))
             then [''Consider reviewing the fundamental concepts before retaking the quiz.'']
             else []);
          suggestions2 =
            (if length incorrect_concepts > 0
             then suggestions1 @ [''Focus on understanding rather than memorization.'']
             else suggestions1)
      in suggestions2 @ [''Try creating your own examples for difficult concepts.''])"

definition process_quiz_attempt ::
  "('s, 't) services \<Rightarrow> 's \<Rightarrow> string \<Rightarrow> string \<Rightarrow> int list \<Rightarrow> error + ('t attempt \<times> 's)" where
  \<comment> \<open>\<open>process_quiz_attempt\<close>: the division by the number of questions has no guard.
      An exception raised by a collaborator is not modelled.\<close>
  "process_quiz_attempt svc s user_id quiz_id answers =
     (let quiz_questions = get_quiz_questions svc s quiz_id;
          (correct, rs) = attempt_loop 0 0 [] (zip quiz_questions answers)
      in if length quiz_questions = 0 then Inl ZeroDivisionError
         else
           let sc = fl (fl (of_nat correct / of_nat (length quiz_questions)) * 100);
               s1 = update_schedule svc user_id quiz_id sc s;
               s2 = record_attempt svc user_id quiz_id sc rs s1;
               next = determine_next_action sc rs
           in Inr (\<lparr>score = sc, correct_answers = correct,
                     total_questions = length quiz_questions, results = rs,
                     next_review = get_next_review_time svc s2 user_id quiz_id,
                     next_action = next,
                     improvement_suggestions = generate_improvement_suggestions rs\<rparr>, s2))"

definition plain_services :: "(nat, nat) services" where
  \<comment> \<open>Collaborators for examples: the state counts the attempts recorded, every quiz is
      the fallback quiz, and the next review is tomorrow.\<close>
  "plain_services =
     \<lparr>get_quiz_questions = (\<lambda>s quiz_id. generate_fallback_quiz []),
      update_schedule = (\<lambda>user_id quiz_id sc s. s),
      record_attempt = (\<lambda>user_id quiz_id sc rs s. Suc s),
      get_next_review_time = (\<lambda>s user_id quiz_id. 1)\<rparr>"

definition no_quiz_services :: "(nat, nat) services" where
  \<comment> \<open>As \<open>plain_services\<close>, with a storage whose quizzes have no question.\<close>
  "no_quiz_services = plain_services\<lparr>get_quiz_questions := (\<lambda>s quiz_id. [])\<rparr>"

section \<open>Properties of the string primitives\<close>

lemma lower_take: "lower (take n s) = take n (lower s)"
  by (simp add: lower_def take_map)

lemma prefix_lower_iff: "prefix p (lower s) \<longleftrightarrow> lower (take (length p) s) = p"
  by (auto simp: prefix_def lower_take) (metis append_take_drop_id)+

lemma startswith_lower_iff:
  "startswith (lower s) ps \<longleftrightarrow> (\<exists>p \<in> set ps. lower (take (length p) s) = p)"
  by (simp add: startswith_def list_ex_iff prefix_lower_iff)

lemma split_from_words:
  "split_from [] (concat (replicate n ''a '')) = replicate n ''a''"
  by (induction n) (simp_all add: is_space_def)

lemma length_split_words: "length (split (concat (replicate n ''a ''))) = n"
  by (simp add: split_def split_from_words)

section \<open>Suggested quiz count\<close>

text \<open>
  C5. For every text, \<open>_suggest_quiz_count\<close> is the step function of the whitespace word
  count \<open>w\<close>: 3 below 500, 5 from 500 and below 1500, 8 from 1500 and below 3000, 10 from
  3000 on; so a text with at least as many words as another gets at least as large a count.
\<close>

theorem suggest_quiz_count_step:
  "(length (split text) < 500 \<longrightarrow> suggest_quiz_count text = 3) \<and>
   (500 \<le> length (split text) \<and> length (split text) < 1500 \<longrightarrow> suggest_quiz_count text = 5) \<and>
   (1500 \<le> length (split text) \<and> length (split text) < 3000 \<longrightarrow> suggest_quiz_count text = 8) \<and>
   (3000 \<le> length (split text) \<longrightarrow> suggest_quiz_count text = 10) \<and>
   (length (split text) \<le> length (split text') \<longrightarrow>
      suggest_quiz_count text \<le> suggest_quiz_count text')"
  by (simp add: suggest_quiz_count_def Let_def)

theorem suggest_quiz_count_step_witness:
  "length (split (concat (replicate 499 ''a ''))) < 500 \<and>
   suggest_quiz_count (concat (replicate 499 ''a '')) = 3 \<and>
   500 \<le> length (split (concat (replicate 500 ''a ''))) \<and>
   length (split (concat (replicate 500 ''a ''))) < 1500 \<and>
   suggest_quiz_count (concat (replicate 500 ''a '')) = 5 \<and>
   suggest_quiz_count (concat (replicate 499 ''a '')) \<le>
     suggest_quiz_count (concat (replicate 500 ''a ''))"
proof -
  define t1 where "t1 = concat (replicate 499 ''a '')"
  define t2 where "t2 = concat (replicate 500 ''a '')"
  have l1: "length (split t1) = 499"
    unfolding t1_def by (rule length_split_words)
  have l2: "length (split t2) = 500"
    unfolding t2_def by (rule length_split_words)
  have "length (split t1) < 500 \<and> suggest_quiz_count t1 = 3 \<and>
        500 \<le> length (split t2) \<and> length (split t2) < 1500 \<and> suggest_quiz_count t2 = 5 \<and>
        suggest_quiz_count t1 \<le> suggest_quiz_count t2"
    using suggest_quiz_count_step [of t1 t2] suggest_quiz_count_step [of t2 t2] l1 l2
    by simp
  then show ?thesis
    unfolding t1_def t2_def .
qed

section \<open>Key points of a section\<close>

lemma key_sentences_loop_filter:
  "key_sentences_loop acc xs = acc @ filter key_point_ok (map strip xs)"
  by (induction xs arbitrary: acc)
    (simp_all add: Let_def key_point_ok_def startswith_lower_iff del: set_simps)

lemma key_point_ok_bounds:
  "key_point_ok s \<Longrightarrow> 21 \<le> length s \<and> length s \<le> 199 \<and>
     \<not> (\<exists>p \<in> set [''however'', ''therefore'', ''moreover'']. lower (take (length p) s) = p)"
  unfolding key_point_ok_def by linarith

text \<open>
  C6. For every text, \<open>_extract_key_points\<close> splits on \<open>[.!?]+\<close>, looks at the first 10
  fragments only, keeps a fragment exactly when its trimmed length is strictly between 20
  and 200 and it does not start, in any letter case, with "however", "therefore" or
  "moreover", and returns the first 5 survivors at most, in their order. So the result has
  at most 5 items, each of 21 to 199 characters, none beginning with a banned lead-in.
\<close>

theorem extract_key_points_spec:
  "extract_key_points text =
     take 5 (filter key_point_ok (map strip (take 10 (re_split text)))) \<and>
   length (extract_key_points text) \<le> 5 \<and>
   (\<forall>s \<in> set (extract_key_points text).
      21 \<le> length s \<and> length s \<le> 199 \<and>
      \<not> (\<exists>p \<in> set [''however'', ''therefore'', ''moreover'']. lower (take (length p) s) = p))"
proof -
  have eq: "extract_key_points text =
      take 5 (filter key_point_ok (map strip (take 10 (re_split text))))"
    by (simp add: extract_key_points_def key_sentences_loop_filter)
  have len: "length (extract_key_points text) \<le> 5"
    unfolding eq by simp
  have "key_point_ok s" if "s \<in> set (extract_key_points text)" for s
  proof -
    from that have "s \<in> set (filter key_point_ok (map strip (take 10 (re_split text))))"
      unfolding eq by (rule in_set_takeD)
    then show ?thesis by simp
  qed
  then have "\<forall>s \<in> set (extract_key_points text).
      21 \<le> length s \<and> length s \<le> 199 \<and>
      \<not> (\<exists>p \<in> set [''however'', ''therefore'', ''moreover'']. lower (take (length p) s) = p)"
    using key_point_ok_bounds by blast
  with eq len show ?thesis
    by (intro conjI)
qed

theorem extract_key_points_spec_witness:
  "extract_key_points
     ''Cells are the basic unit of life. However, viruses are a special case! Short. Why?'' =
     [''Cells are the basic unit of life''] \<and>
   21 \<le> length ''Cells are the basic unit of life'' \<and>
   length ''Cells are the basic unit of life'' \<le> 199 \<and>
   lower (take 7 ''Cells are the basic unit of life'') \<noteq> ''however'' \<and>
   lower (take 9 ''Cells are the basic unit of life'') \<noteq> ''therefore'' \<and>
   lower (take 8 ''Cells are the basic unit of life'') \<noteq> ''moreover''"
proof -
  have ev: "extract_key_points
      ''Cells are the basic unit of life. However, viruses are a special case! Short. Why?'' =
      [''Cells are the basic unit of life'']"
    by (simp add: extract_key_points_def re_split_def is_terminator_def strip_def
        is_space_def startswith_def lower_def lower_char_def)
  from extract_key_points_spec
    [of "''Cells are the basic unit of life. However, viruses are a special case! Short. Why?''"]
  show ?thesis
    unfolding ev by simp
qed

section \<open>Quiz validation\<close>

lemma quiz_item_ok_record_kept: "quiz_item_ok q = Inr (record_kept q)"
  by (auto simp: quiz_item_ok_def record_kept_def get_def get_default_def
      split: option.splits pyval.splits)

lemma make_item_kept: "record_kept q \<Longrightarrow> make_item q = Inr (kept_item q)"
  by (auto simp: make_item_def record_kept_def kept_item_def index_def get_def get_default_def
      split: option.splits pyval.splits)

lemma validate_loop_records:
  "validate_loop acc (map PDict qs) = Inr (acc @ map kept_item (filter record_kept qs))"
  by (induction qs arbitrary: acc) (simp_all add: quiz_item_ok_record_kept make_item_kept)

text \<open>
  On a list of records, \<open>_validate_quiz\<close> never raises: it returns the items of the
  records that pass, in order, so at most as many as it was given. A failing record
  leaves nothing behind.
\<close>

lemma validate_quiz_records:
  "validate_quiz (PList (map PDict qs)) = Inr (map kept_item (filter record_kept qs))"
  by (simp add: validate_loop_records)

lemma validate_quiz_length:
  "validate_quiz (PList (map PDict qs)) = Inr items \<Longrightarrow> length items \<le> length qs"
  using validate_quiz_records [of qs] by auto

text \<open>
  C1. \<open>_validate_quiz\<close> is to keep a record if and only if its question is a string, its
  options are a list of exactly 4 entries and its correct answer is an integer in
  \<open>[0,4)\<close>. The code tests the correct answer with \<open>isinstance(..., int)\<close>, which a
  boolean passes: the record below, whose correct answer is \<open>true\<close>, is kept, with the
  defaults filled in.
\<close>

theorem validate_quiz_keeps_boolean_answer:
  "validate_quiz (PList [PDict
      [(''question'', PStr ''Q''),
       (''options'', PList [PStr ''a'', PStr ''b'', PStr ''c'', PStr ''d'']),
       (''correct_answer'', PBool True)]]) =
   Inr [\<lparr>question = PStr ''Q'',
         options = PList [PStr ''a'', PStr ''b'', PStr ''c'', PStr ''d''],
         correct_answer = PBool True,
         explanation = PStr [],
         difficulty = PStr ''Intermediate'',
         concept = PStr ''General''\<rparr>]"
  by (simp add: quiz_item_ok_def make_item_def get_def get_default_def index_def)

section \<open>Fallbacks of the generator\<close>

text \<open>
  C7. Whenever the LLM collaborator raises, or its response does not parse,
  \<open>generate_quiz\<close> returns exactly one item, the static fallback, whose correct answer
  is 0 and whose difficulty is 'Basic'.
\<close>

theorem generate_quiz_fallback:
  assumes "reply = LLM_raises \<or> (\<exists>text. reply = LLM_content text \<and> loads text = None)"
  shows "\<exists>item. generate_quiz loads reply content = [item] \<and>
           generate_quiz loads reply content = generate_fallback_quiz content \<and>
           correct_answer item = PInt 0 \<and> difficulty item = PStr ''Basic''"
  using assms by (auto simp: generate_quiz_def generate_fallback_quiz_def)

theorem generate_quiz_fallback_witness:
  "length (generate_quiz (\<lambda>text. None) LLM_raises ''Cells divide.'') = 1 \<and>
   correct_answer (hd (generate_quiz (\<lambda>text. None) LLM_raises ''Cells divide.'')) = PInt 0 \<and>
   difficulty (hd (generate_quiz (\<lambda>text. None) LLM_raises ''Cells divide.'')) = PStr ''Basic'' \<and>
   length (generate_quiz (\<lambda>text. None) (LLM_content ''not json'') ''Cells divide.'') = 1 \<and>
   correct_answer (hd (generate_quiz (\<lambda>text. None) (LLM_content ''not json'') ''Cells divide.''))
     = PInt 0 \<and>
   difficulty (hd (generate_quiz (\<lambda>text. None) (LLM_content ''not json'') ''Cells divide.''))
     = PStr ''Basic''"
proof -
  have a: "LLM_raises = LLM_raises \<or>
      (\<exists>text. LLM_raises = LLM_content text \<and> (\<lambda>text. None :: pyval option) text = None)"
    by simp
  have b: "LLM_content ''not json'' = LLM_raises \<or>
      (\<exists>text. LLM_content ''not json'' = LLM_content text \<and>
        (\<lambda>text. None :: pyval option) text = None)"
    by simp
  from generate_quiz_fallback [OF a, of "''Cells divide.''"]
    generate_quiz_fallback [OF b, of "''Cells divide.''"]
  show ?thesis by auto
qed

text \<open>
  C9 as stated: every summary \<open>generate_summary\<close> returns, the static fallback included,
  has a complexity level among Basic, Intermediate and Advanced. The fallback's level is
  'Unknown'.
\<close>

theorem generate_summary_fallback_level_counterexample:
  "field (generate_summary (\<lambda>text. None) LLM_raises ''Cells divide.'') ''complexity_level''
     \<notin> complexity_levels"
  by (simp add: generate_summary_def generate_fallback_summary_def field_def get_def
      complexity_levels_def)

text \<open>
  C9 as amended: the static fallback, returned when the LLM collaborator raises or its
  response does not parse, has the complexity level 'Unknown', which is none of Basic,
  Intermediate and Advanced; a response that parses is returned as it is.
\<close>

theorem generate_summary_levels:
  "(reply = LLM_raises \<or> (\<exists>text. reply = LLM_content text \<and> loads text = None) \<longrightarrow>
      generate_summary loads reply content = generate_fallback_summary content \<and>
      field (generate_summary loads reply content) ''complexity_level'' = PStr ''Unknown'' \<and>
      field (generate_summary loads reply content) ''complexity_level'' \<notin> complexity_levels) \<and>
   (reply = LLM_content text \<and> loads text = Some summary \<longrightarrow>
      generate_summary loads reply content = summary)"
  by (auto simp: generate_summary_def generate_fallback_summary_def field_def get_def
      complexity_levels_def)

theorem generate_summary_levels_witness:
  "field (generate_summary (\<lambda>text. None) (LLM_content ''not json'') ''Cells divide.'')
     ''complexity_level'' = PStr ''Unknown'' \<and>
   generate_summary (\<lambda>text. Some (PDict [(''complexity_level'', PStr ''Hard'')]))
     (LLM_content ''{}'') ''Cells divide.'' = PDict [(''complexity_level'', PStr ''Hard'')]"
proof -
  have a: "LLM_content ''not json'' = LLM_raises \<or>
      (\<exists>text. LLM_content ''not json'' = LLM_content text \<and>
        (\<lambda>text. None :: pyval option) text = None)"
    by simp
  have b: "LLM_content ''{}'' = LLM_content ''{}'' \<and>
      (\<lambda>text. Some (PDict [(''complexity_level'', PStr ''Hard'')])) ''{}'' =
        Some (PDict [(''complexity_level'', PStr ''Hard'')])"
    by simp
  from generate_summary_levels
      [of "LLM_content ''not json''" "\<lambda>text. None" "''Cells divide.''"] a
  have 1: "field (generate_summary (\<lambda>text. None) (LLM_content ''not json'') ''Cells divide.'')
      ''complexity_level'' = PStr ''Unknown''"
    by blast
  from generate_summary_levels [of "LLM_content ''{}''"
      "\<lambda>text. Some (PDict [(''complexity_level'', PStr ''Hard'')])" "''Cells divide.''" "''{}''"
      "PDict [(''complexity_level'', PStr ''Hard'')]"] b
  have 2: "generate_summary (\<lambda>text. Some (PDict [(''complexity_level'', PStr ''Hard'')]))
      (LLM_content ''{}'') ''Cells divide.'' = PDict [(''complexity_level'', PStr ''Hard'')]"
    by blast
  from 1 2 show ?thesis ..
qed

section \<open>Topics\<close>

lemma unbordered_no_overlap:
  assumes "unbordered sub" "0 < k" "k < length sub"
  shows "\<not> prefix sub (drop k sub @ rest)"
proof
  assume p: "prefix sub (drop k sub @ rest)"
  have q: "prefix (drop k sub) (drop k sub @ rest)" by simp
  have "length (drop k sub) \<le> length sub" by simp
  with q p have "prefix (drop k sub) sub"
    by (rule prefix_length_prefix)
  moreover from assms have "\<not> prefix (drop k sub) sub"
    by (simp add: unbordered_def list_all_iff)
  ultimately show False by simp
qed

lemma occurrences_skip:
  assumes "unbordered sub"
  shows "0 < k \<Longrightarrow> k \<le> length sub \<Longrightarrow>
    occurrences sub (drop k sub @ rest) = occurrences sub rest"
proof (induction "length sub - k" arbitrary: k)
  case 0
  then show ?case by simp
next
  case (Suc n)
  then have k: "k < length sub" by simp
  then have d: "drop k sub = sub ! k # drop (Suc k) sub"
    by (simp add: Cons_nth_drop_Suc)
  have np: "\<not> prefix sub (sub ! k # drop (Suc k) sub @ rest)"
    using unbordered_no_overlap [OF assms Suc.prems(1) k, of rest] d by simp
  have ih: "occurrences sub (drop (Suc k) sub @ rest) = occurrences sub rest"
    using Suc.hyps(1) [of "Suc k"] Suc.hyps(2) k by simp
  have "occurrences sub (drop k sub @ rest) =
      occurrences sub (sub ! k # (drop (Suc k) sub @ rest))"
    using d by simp
  also have "\<dots> = occurrences sub (drop (Suc k) sub @ rest)"
    using np by simp
  finally show ?case using ih by simp
qed

text \<open>
  \<open>str.count\<close> resumes its search after the end of each occurrence. For a word no two
  occurrences of which can overlap, that finds every occurrence.
\<close>

lemma count_unbordered:
  assumes "sub \<noteq> []" "unbordered sub"
  shows "count sub s = occurrences sub s"
  using assms
proof (induction sub s rule: count.induct)
  case (1 sub)
  then show ?case by simp
next
  case (2 sub c cs)
  show ?case
  proof (cases "prefix sub (c # cs)")
    case True
    then obtain rest where r: "c # cs = sub @ rest"
      by (auto simp: prefix_def)
    with 2(4) have cs: "cs = drop 1 sub @ rest"
      by (cases sub) auto
    have len: "1 \<le> length sub" using 2(4) by (cases sub) auto
    have dr: "drop (length sub - 1) cs = rest"
      using cs len by simp
    have "count sub (c # cs) = Suc (count sub rest)"
      using True 2(4) dr by simp
    also have "count sub rest = occurrences sub rest"
      using 2(2) [OF 2(4) True 2(4) 2(5)] dr by simp
    also have "occurrences sub rest = occurrences sub cs"
      unfolding cs using occurrences_skip [OF 2(5), of 1 rest] len by simp
    finally show ?thesis using True by simp
  next
    case False
    then show ?thesis
      using 2(3) [OF 2(4) False 2(4) 2(5)] 2(4) by simp
  qed
qed

lemma keywords_unbordered:
  "list_all (\<lambda>(topic, keywords).
      list_all (\<lambda>k. k = ''empire'' \<or> (k \<noteq> [] \<and> unbordered k)) keywords) topic_keywords"
  by code_simp

lemma keyword_count_occurrences:
  assumes "(topic, keywords) \<in> set topic_keywords" "k \<in> set keywords" "k \<noteq> ''empire''"
  shows "count k s = occurrences k s"
proof -
  from keywords_unbordered assms have "k \<noteq> [] \<and> unbordered k"
    unfolding list_all_iff by fastforce
  then show ?thesis by (simp add: count_unbordered)
qed

lemma topics_loop_filter:
  "topics_loop text_lower acc kws =
     acc @ map (\<lambda>(topic, keywords). title topic)
       (filter (\<lambda>(topic, keywords). 3 < keyword_sum text_lower keywords) kws)"
  by (induction kws arbitrary: acc) auto

text \<open>
  C4 as stated: a topic is included exactly when the sum, over its keywords, of the
  occurrences of the keyword in the lowercased text, overlapping occurrences counted each,
  exceeds 3. In the text below "empire" occurs 4 times (at 0, 5, 10 and 15, each sharing
  its last letter with the next), no other keyword of history occurs, and History is not
  among the topics: \<open>str.count\<close> finds 2 occurrences.
\<close>

theorem identify_topics_overlap_counterexample:
  "identify_topics (\<lambda>text. Inr no_doc) ''empirempirempirempire'' = Inr [] \<and>
   occurrence_sum (lower ''empirempirempirempire'')
     [''century'', ''war'', ''empire'', ''revolution'', ''civilization''] = 4"
  by (simp add: identify_topics_def topic_keywords_def keyword_sum_def occurrence_sum_def
      lower_def lower_char_def)

text \<open>
  C4 as amended: when the NLP collaborator returns, \<open>_identify_topics\<close> includes a topic
  exactly when the sum over its 5 keywords of \<open>str.count\<close> of the keyword in the
  lowercased text exceeds 3, and the topics keep the dictionary's order. \<open>str.count\<close>
  counts occurrences from the left without overlap; for every keyword but "empire" that
  is the number of all occurrences. A text in which "cell" occurs 4 times and no other
  keyword of biology occurs has "Biology" among its topics.
\<close>

theorem identify_topics_count:
  assumes "nlp text = Inr d"
  shows "identify_topics nlp text =
      Inr (map (\<lambda>(topic, keywords). title topic)
        (filter (\<lambda>(topic, keywords). 3 < keyword_sum (lower text) keywords) topic_keywords)) \<and>
    (\<forall>(topic, keywords) \<in> set topic_keywords. \<forall>k \<in> set keywords.
       k \<noteq> ''empire'' \<longrightarrow> count k (lower text) = occurrences k (lower text)) \<and>
    (occurrences ''cell'' (lower text) = 4 \<and> occurrences ''organism'' (lower text) = 0 \<and>
     occurrences ''evolution'' (lower text) = 0 \<and> occurrences ''genetics'' (lower text) = 0 \<and>
     occurrences ''ecosystem'' (lower text) = 0 \<longrightarrow>
       (\<exists>topics. identify_topics nlp text = Inr (''Biology'' # topics)))"
proof -
  have eq: "identify_topics nlp text =
      Inr (map (\<lambda>(topic, keywords). title topic)
        (filter (\<lambda>(topic, keywords). 3 < keyword_sum (lower text) keywords) topic_keywords))"
    using assms by (simp add: identify_topics_def topics_loop_filter)
  have cnt: "\<forall>(topic, keywords) \<in> set topic_keywords. \<forall>k \<in> set keywords.
       k \<noteq> ''empire'' \<longrightarrow> count k (lower text) = occurrences k (lower text)"
    using keyword_count_occurrences by blast
  have bio: "(''biology'', [''cell'', ''organism'', ''evolution'', ''genetics'', ''ecosystem''])
      \<in> set topic_keywords"
    by (simp add: topic_keywords_def)
  have cell: "\<exists>topics. identify_topics nlp text = Inr (''Biology'' # topics)"
    if h: "occurrences ''cell'' (lower text) = 4 \<and> occurrences ''organism'' (lower text) = 0 \<and>
     occurrences ''evolution'' (lower text) = 0 \<and> occurrences ''genetics'' (lower text) = 0 \<and>
     occurrences ''ecosystem'' (lower text) = 0"
  proof -
    have "keyword_sum (lower text)
        [''cell'', ''organism'', ''evolution'', ''genetics'', ''ecosystem''] = 4"
      unfolding keyword_sum_def
      using h keyword_count_occurrences [OF bio, of _ "lower text"] by simp
    moreover have "title ''biology'' = ''Biology''"
      by (simp add: title_def is_ascii_letter_def upper_char_def lower_char_def)
    ultimately show ?thesis
      unfolding eq by (simp add: topic_keywords_def)
  qed
  from eq cnt cell show ?thesis by blast
qed

theorem identify_topics_count_witness:
  "identify_topics (\<lambda>text. Inr no_doc) ''A cell, a Cell, CELLS and cellular things.'' =
     Inr [''Biology''] \<and>
   count ''cell'' (lower ''A cell, a Cell, CELLS and cellular things.'') = 4 \<and>
   occurrences ''cell'' (lower ''A cell, a Cell, CELLS and cellular things.'') = 4"
proof -
  have lw: "lower ''A cell, a Cell, CELLS and cellular things.'' =
      ''a cell, a cell, cells and cellular things.''"
    by (simp add: lower_def lower_char_def)
  have ks: "keyword_sum ''a cell, a cell, cells and cellular things.''
      [''cell'', ''organism'', ''evolution'', ''genetics'', ''ecosystem''] = 4"
    by (simp add: keyword_sum_def)
  have oc: "occurrences ''cell'' ''a cell, a cell, cells and cellular things.'' = 4"
    by simp
  have ev: "map (\<lambda>(topic, keywords). title topic)
        (filter (\<lambda>(topic, keywords).
          3 < keyword_sum ''a cell, a cell, cells and cellular things.'' keywords)
          topic_keywords) = [''Biology'']"
    by (simp add: topic_keywords_def keyword_sum_def title_def is_ascii_letter_def
        upper_char_def lower_char_def)
  from identify_topics_count
    [of "\<lambda>text. Inr no_doc" "''A cell, a Cell, CELLS and cellular things.''" no_doc]
  have "identify_topics (\<lambda>text. Inr no_doc) ''A cell, a Cell, CELLS and cellular things.'' =
       Inr [''Biology'']"
    unfolding lw ev by simp
  moreover have "count ''cell'' ''a cell, a cell, cells and cellular things.'' = 4"
    by simp
  ultimately show ?thesis
    unfolding lw using oc by simp
qed

section \<open>Rounding to the nearest double\<close>

lemma rhe_floor: "\<lfloor>x\<rfloor> \<le> round_half_even x"
  by (simp add: round_half_even_def Let_def)

lemma rhe_ceil: "round_half_even x \<le> \<lfloor>x\<rfloor> + 1"
  by (simp add: round_half_even_def Let_def)

lemma rhe_of_int: "round_half_even (of_int n) = n"
  by (simp add: round_half_even_def Let_def)

lemma rhe_mono: "x \<le> y \<Longrightarrow> round_half_even x \<le> round_half_even y"
proof -
  assume xy: "x \<le> y"
  then have fl: "\<lfloor>x\<rfloor> \<le> \<lfloor>y\<rfloor>" by (rule floor_mono)
  show ?thesis
  proof (cases "\<lfloor>x\<rfloor> = \<lfloor>y\<rfloor>")
    case True
    then show ?thesis using xy by (auto simp: round_half_even_def Let_def)
  next
    case False
    with fl have "\<lfloor>x\<rfloor> + 1 \<le> \<lfloor>y\<rfloor>" by simp
    then show ?thesis using rhe_ceil [of x] rhe_floor [of y] by linarith
  qed
qed

lemma bitlen_rat_bounds:
  assumes "0 < (p::int)"
  shows "(2::rat) powi (bitlen p - 1) \<le> of_int p \<and> (of_int p :: rat) < 2 powi (bitlen p)"
proof -
  from assms have b1: "1 \<le> bitlen p"
    by (simp add: bitlen_alt_def)
  from bitlen_bounds [OF assms] have lo: "2 ^ nat (bitlen p - 1) \<le> p" and hi: "p < 2 ^ nat (bitlen p)"
    by simp_all
  from lo have "(of_int (2 ^ nat (bitlen p - 1)) :: rat) \<le> of_int p"
    by (simp only: of_int_le_iff)
  then have l: "(2::rat) powi (bitlen p - 1) \<le> of_int p"
    using b1 by (simp add: power_int_def)
  from hi have "(of_int p :: rat) < of_int (2 ^ nat (bitlen p))"
    by (simp only: of_int_less_iff)
  then have h: "(of_int p :: rat) < 2 powi (bitlen p)"
    using b1 by (simp add: power_int_def)
  from l h show ?thesis ..
qed

lemma ilog2_bounds:
  assumes "0 < x"
  shows "2 powi (ilog2 x) \<le> x \<and> x < 2 powi (ilog2 x + 1)"
proof -
  obtain p q where pq: "quotient_of x = (p, q)" by (cases "quotient_of x")
  then have q: "0 < q" by (rule quotient_of_denom_pos)
  from pq have x: "x = of_int p / of_int q" by (rule quotient_of_div)
  with assms q have p: "0 < p"
    by (simp add: zero_less_divide_iff)
  define e where "e = bitlen p - bitlen q"
  have P: "(2::rat) powi (bitlen p - 1) \<le> of_int p" "(of_int p :: rat) < 2 powi (bitlen p)"
    using bitlen_rat_bounds [OF p] by simp_all
  have Q: "(2::rat) powi (bitlen q - 1) \<le> of_int q" "(of_int q :: rat) < 2 powi (bitlen q)"
    using bitlen_rat_bounds [OF q] by simp_all
  have qpos: "(0::rat) < of_int q" using q by simp
  have up: "x < 2 powi (e + 1)"
  proof -
    have "2 powi (e + 1) * (of_int q :: rat) \<ge> 2 powi (e + 1) * 2 powi (bitlen q - 1)"
      using Q(1) by (simp add: mult_left_mono)
    moreover have "(2::rat) powi (e + 1) * 2 powi (bitlen q - 1) = 2 powi (bitlen p)"
      unfolding e_def by (simp add: power_int_add [symmetric])
    ultimately have "of_int p < 2 powi (e + 1) * (of_int q :: rat)"
      using P(2) by linarith
    then show ?thesis
      unfolding x using qpos by (simp add: pos_divide_less_eq)
  qed
  have lo: "2 powi (e - 1) < x"
  proof -
    have "2 powi (e - 1) * (of_int q :: rat) < 2 powi (e - 1) * 2 powi (bitlen q)"
      using Q(2) by (simp add: mult_strict_left_mono)
    moreover have "(2::rat) powi (e - 1) * 2 powi (bitlen q) = 2 powi (bitlen p - 1)"
      unfolding e_def by (simp add: power_int_add [symmetric])
    ultimately have "2 powi (e - 1) * (of_int q :: rat) < of_int p"
      using P(1) by linarith
    then show ?thesis
      unfolding x using qpos by (simp add: pos_less_divide_eq)
  qed
  have il: "ilog2 x = (if 2 powi e \<le> x then e else e - 1)"
    unfolding ilog2_def pq e_def by (simp add: Let_def)
  show ?thesis
  proof (cases "2 powi e \<le> x")
    case True
    then show ?thesis using il up by simp
  next
    case False
    then show ?thesis using il lo by simp
  qed
qed


lemma ilog2_mono:
  assumes "0 < x" "x \<le> y"
  shows "ilog2 x \<le> ilog2 y"
proof (rule ccontr)
  assume "\<not> ilog2 x \<le> ilog2 y"
  then have "ilog2 y + 1 \<le> ilog2 x" by simp
  then have "(2::rat) powi (ilog2 y + 1) \<le> 2 powi (ilog2 x)"
    by (intro power_int_increasing) simp_all
  moreover have "2 powi (ilog2 x) \<le> x" using ilog2_bounds [OF assms(1)] by simp
  moreover have "y < 2 powi (ilog2 y + 1)" using ilog2_bounds [of y] assms by simp
  ultimately show False using assms(2) by linarith
qed

lemma fl_binade:
  assumes "0 < x"
  shows "2 powi (ilog2 x) \<le> fl x \<and> fl x \<le> 2 powi (ilog2 x + 1)"
proof -
  define e where "e = ilog2 x"
  define u :: rat where "u = 2 powi (e - 52)"
  have u: "0 < u" unfolding u_def by (simp add: zero_less_power_int)
  have b: "2 powi e \<le> x" "x < 2 powi (e + 1)"
    using ilog2_bounds [OF assms] unfolding e_def by simp_all
  have lo_u: "(2::rat) ^ 52 * u = 2 powi e"
    unfolding u_def by (simp add: power_int_diff)
  have hi_u: "(2::rat) ^ 53 * u = 2 powi (e + 1)"
    unfolding u_def by (simp add: power_int_diff power_int_add)
  have "(2::rat) ^ 52 \<le> x / u"
    using b(1) u lo_u by (simp add: pos_le_divide_eq)
  then have "round_half_even ((2::rat) ^ 52) \<le> round_half_even (x / u)"
    by (rule rhe_mono)
  moreover have "round_half_even ((2::rat) ^ 52) = 2 ^ 52"
    using rhe_of_int [of "2 ^ 52"] by simp
  ultimately have m1: "2 ^ 52 \<le> round_half_even (x / u)" by simp
  have "x / u \<le> (2::rat) ^ 53"
    using b(2) u hi_u by (simp add: pos_divide_le_eq)
  then have "round_half_even (x / u) \<le> round_half_even ((2::rat) ^ 53)"
    by (rule rhe_mono)
  moreover have "round_half_even ((2::rat) ^ 53) = 2 ^ 53"
    using rhe_of_int [of "2 ^ 53"] by simp
  ultimately have m2: "round_half_even (x / u) \<le> 2 ^ 53" by simp
  have f: "fl x = of_int (round_half_even (x / u)) * u"
    using assms unfolding fl_def u_def e_def by (simp add: Let_def)
  from m1 have "(of_int (2 ^ 52) :: rat) \<le> of_int (round_half_even (x / u))"
    by (simp only: of_int_le_iff)
  then have "(2::rat) ^ 52 * u \<le> fl x"
    unfolding f using u by (simp add: mult_right_mono)
  moreover from m2 have "(of_int (round_half_even (x / u)) :: rat) \<le> of_int (2 ^ 53)"
    by (simp only: of_int_le_iff)
  then have "fl x \<le> (2::rat) ^ 53 * u"
    unfolding f using u by (simp add: mult_right_mono)
  ultimately show ?thesis
    unfolding lo_u hi_u e_def by simp
qed

lemma fl_mono_pos:
  assumes "0 < x" "x \<le> y"
  shows "fl x \<le> fl y"
proof -
  have y: "0 < y" using assms by simp
  have le: "ilog2 x \<le> ilog2 y" using assms by (rule ilog2_mono)
  show ?thesis
  proof (cases "ilog2 x = ilog2 y")
    case True
    define u :: rat where "u = 2 powi (ilog2 y - 52)"
    have u: "0 < u" unfolding u_def by (simp add: zero_less_power_int)
    have fx: "fl x = of_int (round_half_even (x / u)) * u"
      using assms(1) True unfolding fl_def u_def by (simp add: Let_def)
    have fy: "fl y = of_int (round_half_even (y / u)) * u"
      using y unfolding fl_def u_def by (simp add: Let_def)
    have "x / u \<le> y / u" using assms(2) u by (simp add: divide_right_mono)
    then have "round_half_even (x / u) \<le> round_half_even (y / u)" by (rule rhe_mono)
    then have "(of_int (round_half_even (x / u)) :: rat) \<le> of_int (round_half_even (y / u))"
      by (simp only: of_int_le_iff)
    then show ?thesis unfolding fx fy using u by (simp add: mult_right_mono)
  next
    case False
    with le have "ilog2 x + 1 \<le> ilog2 y" by simp
    then have "(2::rat) powi (ilog2 x + 1) \<le> 2 powi (ilog2 y)"
      by (intro power_int_increasing) simp_all
    moreover have "fl x \<le> 2 powi (ilog2 x + 1)" using fl_binade [OF assms(1)] by simp
    moreover have "2 powi (ilog2 y) \<le> fl y" using fl_binade [OF y] by simp
    ultimately show ?thesis by linarith
  qed
qed

lemma fl_zero: "fl 0 = 0"
  by (simp add: fl_def)

lemma fl_pos:
  assumes "0 < x"
  shows "0 < fl x"
proof -
  have "(0::rat) < 2 powi (ilog2 x)" by (simp add: zero_less_power_int)
  moreover have "2 powi (ilog2 x) \<le> fl x" using fl_binade [OF assms] by simp
  ultimately show ?thesis by linarith
qed

lemma fl_mono_nonneg:
  assumes "0 \<le> x" "x \<le> y"
  shows "fl x \<le> fl y"
proof (cases "x = 0")
  case True
  then show ?thesis using assms fl_pos [of y] by (cases "y = 0") (auto simp: fl_zero)
next
  case False
  then show ?thesis using assms fl_mono_pos [of x y] by simp
qed

lemma fl_one: "fl 1 = 1"
  by code_simp

lemma fl_hundred: "fl 100 = 100"
  by code_simp

lemma fl_unit:
  assumes "0 \<le> x" "x \<le> 1"
  shows "0 \<le> fl x \<and> fl x \<le> 1"
  using fl_mono_nonneg [of 0 x] fl_mono_nonneg [of x 1] assms by (simp add: fl_zero fl_one)

lemma round2_unit:
  assumes "0 \<le> x" "x \<le> 1"
  shows "0 \<le> round2 x \<and> round2 x \<le> 1"
proof -
  have "round_half_even (of_int 0) \<le> round_half_even (x * 100)"
    using assms by (intro rhe_mono) simp
  then have k0: "0 \<le> round_half_even (x * 100)"
    by (simp only: rhe_of_int)
  have "round_half_even (x * 100) \<le> round_half_even (of_int 100)"
    using assms by (intro rhe_mono) simp
  then have k1: "round_half_even (x * 100) \<le> 100"
    by (simp only: rhe_of_int)
  have "(0::rat) \<le> of_int (round_half_even (x * 100)) / 100"
    using k0 by simp
  moreover have "(of_int (round_half_even (x * 100)) :: rat) / 100 \<le> 1"
    using k1 by simp
  ultimately show ?thesis
    unfolding round2_def by (rule fl_unit)
qed

lemma rhe_error: "\<bar>of_int (round_half_even z) - z\<bar> \<le> 1 / 2"
proof -
  have "of_int \<lfloor>z\<rfloor> \<le> z" "z < of_int \<lfloor>z\<rfloor> + 1"
    by linarith+
  then show ?thesis
    by (auto simp: round_half_even_def Let_def abs_le_iff)
qed

lemma rhe_tie_even:
  assumes "\<bar>of_int (round_half_even z) - z\<bar> = 1 / 2"
  shows "even (round_half_even z)"
proof -
  define d where "d = z - of_int \<lfloor>z\<rfloor>"
  have d: "0 \<le> d" "d < 1"
    unfolding d_def by linarith+
  consider "d < 1 / 2" | "1 / 2 < d" | "d = 1 / 2" by linarith
  then show ?thesis
  proof cases
    case 1
    then have "round_half_even z = \<lfloor>z\<rfloor>"
      unfolding d_def by (simp add: round_half_even_def Let_def)
    then have "\<bar>of_int (round_half_even z) - z\<bar> = d"
      unfolding d_def using d by (simp add: d_def)
    with assms 1 show ?thesis by simp
  next
    case 2
    then have "round_half_even z = \<lfloor>z\<rfloor> + 1"
      unfolding d_def by (simp add: round_half_even_def Let_def)
    then have "\<bar>of_int (round_half_even z) - z\<bar> = 1 - d"
      unfolding d_def using d by (simp add: d_def)
    with assms 2 show ?thesis by simp
  next
    case 3
    then show ?thesis
      unfolding d_def by (simp add: round_half_even_def Let_def)
  qed
qed

lemma fl_error: "\<bar>fl y - y\<bar> \<le> \<bar>y\<bar> / 2 ^ 53"
proof (cases "y = 0")
  case True
  then show ?thesis by (simp add: fl_zero)
next
  case False
  define e where "e = ilog2 \<bar>y\<bar>"
  define u :: rat where "u = 2 powi (e - 52)"
  have u: "0 < u" unfolding u_def by (simp add: zero_less_power_int)
  have f: "fl y = of_int (round_half_even (y / u)) * u"
    using False unfolding fl_def u_def e_def by (simp add: Let_def)
  have "fl y - y = (of_int (round_half_even (y / u)) - y / u) * u"
    unfolding f using u by (simp add: field_simps)
  then have "\<bar>fl y - y\<bar> = \<bar>of_int (round_half_even (y / u)) - y / u\<bar> * u"
    using u by (simp add: abs_mult)
  also have "\<dots> \<le> (1 / 2) * u"
    using rhe_error [of "y / u"] u by (intro mult_right_mono) simp_all
  finally have 1: "\<bar>fl y - y\<bar> \<le> u / 2" by simp
  have "2 powi e \<le> \<bar>y\<bar>"
    using ilog2_bounds [of "\<bar>y\<bar>"] False unfolding e_def by simp
  moreover have "(2::rat) powi e = 2 ^ 52 * u"
    unfolding u_def by (simp add: power_int_diff)
  ultimately have "2 ^ 52 * u \<le> \<bar>y\<bar>" by simp
  then have "u / 2 \<le> \<bar>y\<bar> / 2 ^ 53" by simp
  with 1 show ?thesis by linarith
qed

lemma fl_nonpos:
  assumes "y \<le> 0"
  shows "fl y \<le> 0"
proof (cases "y = 0")
  case True
  then show ?thesis by (simp add: fl_zero)
next
  case False
  define u :: rat where "u = 2 powi (ilog2 \<bar>y\<bar> - 52)"
  have u: "0 < u" unfolding u_def by (simp add: zero_less_power_int)
  have f: "fl y = of_int (round_half_even (y / u)) * u"
    using False unfolding fl_def u_def by (simp add: Let_def)
  have "y / u \<le> 0" using assms u by (simp add: divide_le_0_iff)
  then have "round_half_even (y / u) \<le> round_half_even (of_int 0)"
    by (intro rhe_mono) simp
  then have "round_half_even (y / u) \<le> 0"
    by (simp only: rhe_of_int)
  then have "(of_int (round_half_even (y / u)) :: rat) \<le> 0" by simp
  then show ?thesis
    unfolding f using u by (simp add: mult_le_0_iff)
qed

lemma clamp_lipschitz:
  "\<bar>max 0 (min 1 p) - max 0 (min 1 q)\<bar> \<le> \<bar>p - q\<bar>" for p q :: rat
  by (simp add: max_def min_def abs_if)

text \<open>
  The four double operations of the readability formula lose less than \<open>2^-49\<close> against
  exact arithmetic.
\<close>

lemma readability_double_error:
  fixes a :: rat
  assumes "0 \<le> a"
  shows "\<bar>max 0 (min 1 (fl (1 - fl (fl (fl a - 10) / 20)))) -
          max 0 (min 1 (1 - (a - 10) / 20))\<bar> \<le> 1 / 2 ^ 49"
proof (cases "a \<le> 40")
  case True
  define A1 where "A1 = fl a"
  define A2 where "A2 = fl (A1 - 10)"
  define A3 where "A3 = fl (A2 / 20)"
  define A4 where "A4 = fl (1 - A3)"
  have e1: "\<bar>A1 - a\<bar> \<le> \<bar>a\<bar> / 2 ^ 53"
    unfolding A1_def by (rule fl_error)
  have e2: "\<bar>A2 - (A1 - 10)\<bar> \<le> \<bar>A1 - 10\<bar> / 2 ^ 53"
    unfolding A2_def by (rule fl_error)
  have e3: "\<bar>A3 - A2 / 20\<bar> \<le> \<bar>A2 / 20\<bar> / 2 ^ 53"
    unfolding A3_def by (rule fl_error)
  have e4: "\<bar>A4 - (1 - A3)\<bar> \<le> \<bar>1 - A3\<bar> / 2 ^ 53"
    unfolding A4_def by (rule fl_error)
  have b1: "\<bar>A1 - a\<bar> \<le> 40 / 2 ^ 53"
    using e1 True assms by simp
  have b2: "\<bar>A1 - 10\<bar> \<le> 31"
    using b1 True assms unfolding abs_le_iff by auto
  have b3: "\<bar>A2 - (A1 - 10)\<bar> \<le> 31 / 2 ^ 53"
    using e2 b2 by simp
  have b4: "\<bar>A2\<bar> \<le> 32"
    using b3 b2 unfolding abs_le_iff by auto
  have b5: "\<bar>A3 - A2 / 20\<bar> \<le> 2 / 2 ^ 53"
    using e3 b4 by simp
  have b6: "\<bar>A3\<bar> \<le> 2"
    using b5 b4 unfolding abs_le_iff by auto
  have b7: "\<bar>1 - A3\<bar> \<le> 3"
    using b6 unfolding abs_le_iff by auto
  have b8: "\<bar>A4 - (1 - A3)\<bar> \<le> 3 / 2 ^ 53"
    using e4 b7 by simp
  define eps :: rat where "eps = 1 / 2 ^ 53"
  have eps: "0 < eps" "1 / 2 ^ 49 = 16 * eps"
    unfolding eps_def by simp_all
  define d1 where "d1 = A1 - a"
  define d2 where "d2 = A2 - (A1 - 10)"
  define d3 where "d3 = A3 - A2 / 20"
  define d4 where "d4 = A4 - (1 - A3)"
  have c1: "\<bar>d1\<bar> \<le> 40 * eps"
    using b1 unfolding d1_def eps_def by simp
  have c2: "\<bar>d2\<bar> \<le> 31 * eps"
    using b3 unfolding d2_def eps_def by simp
  have c3: "\<bar>d3\<bar> \<le> 2 * eps"
    using b5 unfolding d3_def eps_def by simp
  have c4: "\<bar>d4\<bar> \<le> 3 * eps"
    using b8 unfolding d4_def eps_def by simp
  have "A4 - (1 - (a - 10) / 20) = d4 - d3 - d2 / 20 - d1 / 20"
    unfolding d1_def d2_def d3_def d4_def by (simp add: field_simps)
  moreover have "\<bar>d4 - d3 - d2 / 20 - d1 / 20\<bar> \<le> 16 * eps"
    using c1 c2 c3 c4 eps(1) by linarith
  ultimately have "\<bar>A4 - (1 - (a - 10) / 20)\<bar> \<le> 1 / 2 ^ 49"
    unfolding eps(2) by simp
  moreover have "\<bar>max 0 (min 1 A4) - max 0 (min 1 (1 - (a - 10) / 20))\<bar>
      \<le> \<bar>A4 - (1 - (a - 10) / 20)\<bar>"
    by (rule clamp_lipschitz)
  ultimately show ?thesis
    unfolding A4_def A3_def A2_def A1_def by linarith
next
  case False
  then have a: "40 \<le> a" by simp
  have "fl 40 \<le> fl a"
    by (rule fl_mono_nonneg) (use a in simp_all)
  moreover have "fl 40 = 40" by code_simp
  ultimately have "30 \<le> fl a - 10" by simp
  then have "fl 30 \<le> fl (fl a - 10)"
    by (intro fl_mono_nonneg) simp_all
  moreover have "fl 30 = 30" by code_simp
  ultimately have "3 / 2 \<le> fl (fl a - 10) / 20" by simp
  then have "fl (3 / 2) \<le> fl (fl (fl a - 10) / 20)"
    by (intro fl_mono_nonneg) simp_all
  moreover have "fl (3 / 2) = 3 / 2" by code_simp
  ultimately have "1 - fl (fl (fl a - 10) / 20) \<le> 0" by simp
  then have "fl (1 - fl (fl (fl a - 10) / 20)) \<le> 0"
    by (rule fl_nonpos)
  then have 1: "max 0 (min 1 (fl (1 - fl (fl (fl a - 10) / 20)))) = 0"
    by (simp add: max_def min_def)
  have "1 - (a - 10) / 20 \<le> 0" using a by simp
  then have 2: "max 0 (min 1 (1 - (a - 10) / 20)) = 0"
    by (simp add: max_def min_def)
  show ?thesis unfolding 1 2 by simp
qed

section \<open>Readability\<close>

lemma re_split_from_nonempty: "0 < length (re_split_from cur in_sep s)"
  by (induction s arbitrary: cur in_sep) simp_all

lemma re_split_nonempty: "0 < length (re_split s)"
  unfolding re_split_def by (rule re_split_from_nonempty)

lemma calculate_readability_nonempty:
  assumes "text \<noteq> []"
  shows "calculate_readability text =
    round2 (max 0 (min 1 (fl (1 - fl (fl
      (fl (of_nat (length (split text)) / of_nat (length (re_split text))) - 10) / 20)))))"
  using assms re_split_nonempty [of "text"] by (simp add: calculate_readability_def Let_def)

text \<open>
  \<open>round(v, 2)\<close> of a double \<open>v\<close> in \<open>[0,1]\<close> is the double nearest to \<open>k / 100\<close>, where
  \<open>k\<close> is the integer nearest to \<open>100 v\<close>, the even one of two.
\<close>

lemma round2_hundredth:
  assumes "0 \<le> v" "v \<le> 1"
  shows "\<exists>k. 0 \<le> k \<and> k \<le> 100 \<and> round2 v = fl (of_int k / 100) \<and>
    \<bar>round2 v - of_int k / 100\<bar> \<le> 1 / 2 ^ 53 \<and>
    \<bar>of_int k / 100 - v\<bar> \<le> 1 / 200 \<and>
    (\<bar>of_int k / 100 - v\<bar> = 1 / 200 \<longrightarrow> even k)"
proof -
  define k where "k = round_half_even (v * 100)"
  have "round_half_even (of_int 0) \<le> round_half_even (v * 100)"
    using assms by (intro rhe_mono) simp
  then have k0: "0 \<le> k"
    unfolding k_def by (simp only: rhe_of_int)
  have "round_half_even (v * 100) \<le> round_half_even (of_int 100)"
    using assms by (intro rhe_mono) simp
  then have k1: "k \<le> 100"
    unfolding k_def by (simp only: rhe_of_int)
  have r: "round2 v = fl (of_int k / 100)"
    unfolding round2_def k_def by (rule refl)
  have q: "\<bar>(of_int k :: rat) / 100\<bar> \<le> 1"
    using k0 k1 by simp
  have "\<bar>fl (of_int k / 100) - of_int k / 100\<bar> \<le> \<bar>(of_int k :: rat) / 100\<bar> / 2 ^ 53"
    by (rule fl_error)
  also have "\<dots> \<le> 1 / 2 ^ 53"
    using q by (simp add: divide_right_mono)
  finally have d: "\<bar>round2 v - of_int k / 100\<bar> \<le> 1 / 2 ^ 53"
    unfolding r .
  have s: "\<bar>of_int k / 100 - v\<bar> = \<bar>of_int k - v * 100\<bar> / 100"
    by (simp add: abs_if field_simps)
  have n: "\<bar>of_int k / 100 - v\<bar> \<le> 1 / 200"
    unfolding s using rhe_error [of "v * 100"] unfolding k_def by simp
  have t: "even k" if "\<bar>of_int k / 100 - v\<bar> = 1 / 200"
  proof -
    from that have "\<bar>of_int k - v * 100\<bar> = 1 / 2"
      unfolding s by simp
    then show ?thesis
      unfolding k_def by (rule rhe_tie_even)
  qed
  from k0 k1 r d n t show ?thesis by blast
qed

text \<open>
  C2. \<open>_calculate_readability\<close> returns exactly 0.0 for the empty string, without using
  the formula. For every non-empty text the split on \<open>[.!?]+\<close> yields at least one
  fragment, and the result is \<open>1 - (avg - 10) / 20\<close> clamped to \<open>[0,1]\<close> and rounded to
  2 decimals, where \<open>avg\<close> is the whitespace word count divided by the number of
  fragments. In detail, with \<open>v\<close> the clamped value as the four double operations compute
  it: the result is the double nearest to \<open>k / 100\<close> for an integer \<open>k\<close> from 0 to 100,
  and within \<open>2^-53\<close> of it; \<open>k / 100\<close> is a hundredth nearest to \<open>v\<close>, the even one of
  two; \<open>v\<close> is within \<open>2^-49\<close> of the formula's value in exact arithmetic, so that
  \<open>k / 100\<close> is within \<open>1/200 + 2^-49\<close> of it. The result is always in \<open>[0,1]\<close>.
\<close>

theorem calculate_readability_spec:
  "calculate_readability [] = 0 \<and>
   (text \<noteq> [] \<longrightarrow>
      0 < length (re_split text) \<and>
      (\<exists>v k.
         v = max 0 (min 1 (fl (1 - fl (fl
               (fl (of_nat (length (split text)) / of_nat (length (re_split text))) - 10) / 20)))) \<and>
         0 \<le> k \<and> k \<le> 100 \<and>
         calculate_readability text = fl (of_int k / 100) \<and>
         \<bar>calculate_readability text - of_int k / 100\<bar> \<le> 1 / 2 ^ 53 \<and>
         \<bar>of_int k / 100 - v\<bar> \<le> 1 / 200 \<and>
         (\<bar>of_int k / 100 - v\<bar> = 1 / 200 \<longrightarrow> even k) \<and>
         \<bar>v - readability_formula text\<bar> \<le> 1 / 2 ^ 49 \<and>
         \<bar>of_int k / 100 - readability_formula text\<bar> \<le> 1 / 200 + 1 / 2 ^ 49)) \<and>
   0 \<le> calculate_readability text \<and> calculate_readability text \<le> 1"
proof -
  define v where "v = max 0 (min 1 (fl (1 - fl (fl
      (fl (of_nat (length (split text)) / of_nat (length (re_split text))) - 10) / 20))))"
  have v: "0 \<le> v" "v \<le> 1"
    unfolding v_def by simp_all
  have e: "calculate_readability [] = 0"
    by (simp add: calculate_readability_def)
  have f: "calculate_readability text = round2 v" if "text \<noteq> []"
    unfolding v_def using that by (rule calculate_readability_nonempty)
  have x: "\<bar>v - readability_formula text\<bar> \<le> 1 / 2 ^ 49"
    unfolding v_def readability_formula_def
    by (rule readability_double_error) simp
  have m: "\<exists>k. 0 \<le> k \<and> k \<le> 100 \<and>
         calculate_readability text = fl (of_int k / 100) \<and>
         \<bar>calculate_readability text - of_int k / 100\<bar> \<le> 1 / 2 ^ 53 \<and>
         \<bar>of_int k / 100 - v\<bar> \<le> 1 / 200 \<and>
         (\<bar>of_int k / 100 - v\<bar> = 1 / 200 \<longrightarrow> even k) \<and>
         \<bar>v - readability_formula text\<bar> \<le> 1 / 2 ^ 49 \<and>
         \<bar>of_int k / 100 - readability_formula text\<bar> \<le> 1 / 200 + 1 / 2 ^ 49"
    if "text \<noteq> []"
  proof -
    from round2_hundredth [OF v] obtain k where k: "0 \<le> k" "k \<le> 100"
        "round2 v = fl (of_int k / 100)"
        "\<bar>round2 v - of_int k / 100\<bar> \<le> 1 / 2 ^ 53"
        "\<bar>of_int k / 100 - v\<bar> \<le> 1 / 200"
        "\<bar>of_int k / 100 - v\<bar> = 1 / 200 \<longrightarrow> even k"
      by blast
    have "\<bar>of_int k / 100 - readability_formula text\<bar>
        \<le> \<bar>of_int k / 100 - v\<bar> + \<bar>v - readability_formula text\<bar>"
      by linarith
    with k(5) x
    have y: "\<bar>of_int k / 100 - readability_formula text\<bar> \<le> 1 / 200 + 1 / 2 ^ 49"
      by linarith
    from k x y show ?thesis
      unfolding f [OF that] by blast
  qed
  have r: "0 \<le> calculate_readability text \<and> calculate_readability text \<le> 1"
  proof (cases "text = []")
    case True
    then show ?thesis using e by simp
  next
    case False
    show ?thesis
      unfolding f [OF False] using v by (rule round2_unit)
  qed
  from e m r re_split_nonempty [of "text"] show ?thesis
    unfolding v_def by blast
qed

text \<open>
  A text of 21 words in 2 fragments: the formula's value is 0.975, halfway between two
  hundredths; the double computed is just below it, and the result is the double 0.97.
\<close>

theorem calculate_readability_spec_witness:
  "''a a a a a a a a a a a a a a a a a a a a. a'' \<noteq> [] \<and>
   length (split ''a a a a a a a a a a a a a a a a a a a a. a'') = 21 \<and>
   length (re_split ''a a a a a a a a a a a a a a a a a a a a. a'') = 2 \<and>
   readability_formula ''a a a a a a a a a a a a a a a a a a a a. a'' = 39 / 40 \<and>
   max 0 (min 1 (fl (1 - fl (fl (fl (21 / 2) - 10) / 20)))) =
     (8782019273372467 / 9007199254740992 :: rat) \<and>
   calculate_readability ''a a a a a a a a a a a a a a a a a a a a. a'' =
     4368491638549381 / 4503599627370496 \<and>
   \<bar>calculate_readability ''a a a a a a a a a a a a a a a a a a a a. a'' - 97 / 100\<bar>
     \<le> 1 / 2 ^ 53 \<and>
   0 \<le> calculate_readability ''a a a a a a a a a a a a a a a a a a a a. a'' \<and>
   calculate_readability ''a a a a a a a a a a a a a a a a a a a a. a'' \<le> 1"
proof -
  have w: "length (split ''a a a a a a a a a a a a a a a a a a a a. a'') = 21"
    by code_simp
  have s: "length (re_split ''a a a a a a a a a a a a a a a a a a a a. a'') = 2"
    by code_simp
  have x: "readability_formula ''a a a a a a a a a a a a a a a a a a a a. a'' = 39 / 40"
    unfolding readability_formula_def w s by simp
  have v: "max 0 (min 1 (fl (1 - fl (fl (fl (21 / 2) - 10) / 20)))) =
      (8782019273372467 / 9007199254740992 :: rat)"
    by code_simp
  have c: "calculate_readability ''a a a a a a a a a a a a a a a a a a a a. a'' =
      4368491638549381 / 4503599627370496"
    by code_simp
  have d: "\<bar>(4368491638549381 / 4503599627370496 :: rat) - 97 / 100\<bar> \<le> 1 / 2 ^ 53"
    by simp
  from calculate_readability_spec [of "''a a a a a a a a a a a a a a a a a a a a. a''"]
  have "0 \<le> calculate_readability ''a a a a a a a a a a a a a a a a a a a a. a'' \<and>
      calculate_readability ''a a a a a a a a a a a a a a a a a a a a. a'' \<le> 1"
    by blast
  with w s x v c d show ?thesis
    by simp
qed

section \<open>Difficulty and the whole analysis\<close>

lemma assess_difficulty_returns:
  assumes "nlp text = Inr d" "sents d \<noteq> []"
  shows "\<exists>level. assess_difficulty nlp text = Inr level"
  using assms by (simp add: assess_difficulty_def Let_def)

lemma assess_difficulty_no_alpha:
  assumes "nlp text = Inr d" "sents d \<noteq> []" "filter is_alpha (tokens d) = []"
  shows "assess_difficulty nlp text =
    Inr (let avg = fl (of_nat (length (filter (\<lambda>token. \<not> is_punct token) (tokens d))) /
                       of_nat (length (sents d)))
         in if avg > 20 then ''Advanced'' else if avg > 15 then ''Intermediate'' else ''Basic'')"
proof -
  have "\<not> (0::rat) > fl (3 / 10)" "\<not> (0::rat) > fl (2 / 10)"
    using fl_mono_nonneg [of 0 "3 / 10"] fl_mono_nonneg [of 0 "2 / 10"]
    by (simp_all add: fl_zero)
  then show ?thesis
    using assms by (simp add: assess_difficulty_def Let_def)
qed

text \<open>
  When the collaborator returns a document with at least one sentence, \<open>analyze\<close>
  returns an analysis.
\<close>

lemma analyze_returns:
  assumes "nlp (doc_text pd) = Inr d" "sents d \<noteq> []"
  shows "\<exists>a. analyze nlp pd = Inr a"
proof -
  obtain level where "assess_difficulty nlp (doc_text pd) = Inr level"
    using assess_difficulty_returns [of nlp "doc_text pd" d] assms by blast
  then show ?thesis
    using assms(1)
    by (simp add: analyze_def Let_def extract_key_concepts_def identify_topics_def)
qed

lemma analyze_propagates:
  assumes "nlp (doc_text pd) = Inl e"
  shows "analyze nlp pd = Inl e"
  using assms by (simp add: analyze_def Let_def extract_key_concepts_def)

text \<open>
  C3. For every parsed document on whose text the NLP collaborator succeeds, \<open>analyze\<close>
  is to complete, the division by the sentence count in \<open>_assess_difficulty\<close> being
  always defined. For the empty text the collaborator returns a document without tokens
  and without sentences, and the division raises ZeroDivisionError, which \<open>analyze\<close>
  passes on.
\<close>

theorem analyze_empty_text_fails:
  "assess_difficulty (\<lambda>text. Inr no_doc) [] = Inl ZeroDivisionError \<and>
   analyze (\<lambda>text. Inr no_doc) \<lparr>doc_text = [], doc_sections = []\<rparr> = Inl ZeroDivisionError"
  by (simp add: analyze_def assess_difficulty_def extract_key_concepts_def no_doc_def
      most_common_def Let_def)

section \<open>Quiz attempts\<close>

lemma attempt_loop_fst:
  "fst (attempt_loop i c rs ps) =
     c + length (filter (\<lambda>(q, answer). equals_int (correct_answer q) answer) ps)"
  by (induction ps arbitrary: i c rs) (auto simp: Let_def)

lemma attempt_loop_length:
  "length (snd (attempt_loop i c rs ps)) = length rs + length ps"
  by (induction ps arbitrary: i c rs) (auto simp: Let_def)

lemma attempt_loop_snd:
  "snd (attempt_loop i c rs ps) =
     rs @ map (\<lambda>(k, q, answer).
        \<lparr>question_id = k, user_answer = answer, result_correct_answer = correct_answer q,
         is_correct = equals_int (correct_answer q) answer,
         result_explanation = explanation q\<rparr>) (zip [i..<i + length ps] ps)"
proof (induction ps arbitrary: i c rs)
  case Nil
  then show ?case by simp
next
  case (Cons p ps)
  obtain q answer where p: "p = (q, answer)" by (cases p)
  have u: "[i..<i + length ((q, answer) # ps)] = i # [Suc i..<Suc i + length ps]"
    by (simp add: upt_conv_Cons del: upt_Suc)
  show ?case
    unfolding p u by (simp add: Let_def Cons.IH del: upt_Suc)
qed

lemma attempt_loop_correct_le:
  "fst (attempt_loop 0 0 [] (zip qs answers)) \<le> min (length qs) (length answers)"
proof -
  have "length (filter (\<lambda>(q, answer). equals_int (correct_answer q) answer) (zip qs answers))
      \<le> length (zip qs answers)"
    by (rule length_filter_le)
  then show ?thesis
    unfolding attempt_loop_fst by simp
qed

lemma score_bounds:
  assumes "c \<le> n" "0 < n"
  shows "0 \<le> fl (fl (of_nat c / of_nat n) * 100) \<and> fl (fl (of_nat c / of_nat n) * 100) \<le> 100"
proof -
  have "(0::rat) \<le> of_nat c / of_nat n" by simp
  moreover have "(of_nat c :: rat) / of_nat n \<le> 1"
    using assms by (simp add: divide_le_eq_1)
  ultimately have u: "0 \<le> fl (of_nat c / of_nat n) \<and> fl (of_nat c / of_nat n) \<le> 1"
    by (rule fl_unit)
  then have a: "0 \<le> fl (of_nat c / of_nat n) * 100" "fl (of_nat c / of_nat n) * 100 \<le> 100"
    by simp_all
  from fl_mono_nonneg [of 0 "fl (of_nat c / of_nat n) * 100"] a(1)
  have "0 \<le> fl (fl (of_nat c / of_nat n) * 100)"
    by (simp add: fl_zero)
  moreover from fl_mono_nonneg [OF a(1) a(2)]
  have "fl (fl (of_nat c / of_nat n) * 100) \<le> 100"
    by (simp add: fl_hundred)
  ultimately show ?thesis ..
qed

lemma process_quiz_attempt_nonempty:
  assumes "get_quiz_questions svc s quiz_id \<noteq> []"
  shows "process_quiz_attempt svc s user_id quiz_id answers =
    (let qs = get_quiz_questions svc s quiz_id;
         c = fst (attempt_loop 0 0 [] (zip qs answers));
         rs = snd (attempt_loop 0 0 [] (zip qs answers));
         sc = fl (fl (of_nat c / of_nat (length qs)) * 100);
         s2 = record_attempt svc user_id quiz_id sc rs (update_schedule svc user_id quiz_id sc s)
     in Inr (\<lparr>score = sc, correct_answers = c, total_questions = length qs, results = rs,
               next_review = get_next_review_time svc s2 user_id quiz_id,
               next_action = determine_next_action sc rs,
               improvement_suggestions = generate_improvement_suggestions rs\<rparr>, s2))"
  using assms by (simp add: process_quiz_attempt_def Let_def split: prod.splits)

text \<open>
  C8. For every quiz attempt \<open>process_quiz_attempt\<close> is to compute the score, the number
  of correct answers divided by the number of questions, times 100, and the next action
  from it. A quiz without questions is one the generator itself produces: for a reply that
  parses to a list without a valid record \<open>generate_quiz\<close> returns the empty list, with no
  fallback. On such a quiz the division by the question count raises ZeroDivisionError,
  and neither score nor next action is returned.
\<close>

theorem process_quiz_attempt_no_questions_fails:
  "generate_quiz (\<lambda>text. Some (PList [])) (LLM_content ''[]'') ''Cells divide.'' = [] \<and>
   process_quiz_attempt
     (plain_services\<lparr>get_quiz_questions :=
        (\<lambda>s quiz_id.
           generate_quiz (\<lambda>text. Some (PList [])) (LLM_content ''[]'') ''Cells divide.'')\<rparr>)
     0 ''user'' ''quiz'' [0] = Inl ZeroDivisionError \<and>
   process_quiz_attempt no_quiz_services 0 ''user'' ''quiz'' [0] = Inl ZeroDivisionError"
  by (simp add: process_quiz_attempt_def no_quiz_services_def plain_services_def
      generate_quiz_def)

text \<open>
  On a quiz with at least one question \<open>process_quiz_attempt\<close> returns: its score is
  the number of correct answers divided by the number of questions, times 100 (in double
  arithmetic), and the action of its next step is 'advance' when the score is at least 90,
  'review_weak' when it is at least 70 and below 90, and 'repeat' below 70; so 95 gives
  'advance', 75 'review_weak' and 50 'repeat'.
\<close>

lemma process_quiz_attempt_score_action:
  assumes "get_quiz_questions svc s quiz_id \<noteq> []"
  shows "\<exists>a s'. process_quiz_attempt svc s user_id quiz_id answers = Inr (a, s') \<and>
      total_questions a = length (get_quiz_questions svc s quiz_id) \<and>
      correct_answers a =
        length (filter (\<lambda>(q, answer). equals_int (correct_answer q) answer)
          (zip (get_quiz_questions svc s quiz_id) answers)) \<and>
      score a = fl (fl (of_nat (correct_answers a) / of_nat (total_questions a)) * 100) \<and>
      (score a \<ge> 90 \<longrightarrow> action (next_action a) = ''advance'') \<and>
      (70 \<le> score a \<and> score a < 90 \<longrightarrow> action (next_action a) = ''review_weak'') \<and>
      (score a < 70 \<longrightarrow> action (next_action a) = ''repeat'') \<and>
      action (determine_next_action 95 (results a)) = ''advance'' \<and>
      action (determine_next_action 75 (results a)) = ''review_weak'' \<and>
      action (determine_next_action 50 (results a)) = ''repeat''"
  unfolding process_quiz_attempt_nonempty [OF assms]
  by (simp add: Let_def attempt_loop_fst determine_next_action_def)

lemma process_quiz_attempt_score_action_example:
  "get_quiz_questions plain_services 0 ''quiz'' \<noteq> [] \<and>
   (case process_quiz_attempt plain_services 0 ''user'' ''quiz'' [0] of
      Inr (a, s') \<Rightarrow> score a = 100 \<and> action (next_action a) = ''advance'' \<and> s' = 1
    | Inl e \<Rightarrow> False) \<and>
   (case process_quiz_attempt plain_services 0 ''user'' ''quiz'' [2] of
      Inr (a, s') \<Rightarrow> score a = 0 \<and> action (next_action a) = ''repeat'' \<and> s' = 1
    | Inl e \<Rightarrow> False)"
proof -
  have q: "get_quiz_questions plain_services 0 ''quiz'' \<noteq> []"
    by (simp add: plain_services_def generate_fallback_quiz_def)
  have c1: "length (filter (\<lambda>(q, answer). equals_int (correct_answer q) answer)
      (zip (get_quiz_questions plain_services 0 ''quiz'') [0])) = 1"
    by (simp add: plain_services_def generate_fallback_quiz_def)
  have c2: "length (filter (\<lambda>(q, answer). equals_int (correct_answer q) answer)
      (zip (get_quiz_questions plain_services 0 ''quiz'') [2])) = 0"
    by (simp add: plain_services_def generate_fallback_quiz_def)
  have n: "length (get_quiz_questions plain_services 0 ''quiz'') = 1"
    by (simp add: plain_services_def generate_fallback_quiz_def)
  have s1: "snd (the_attempt) = 1"
    if "process_quiz_attempt plain_services 0 ''user'' ''quiz'' answers = Inr the_attempt"
    for the_attempt answers
    using that unfolding process_quiz_attempt_nonempty [OF q]
    by (auto simp: Let_def plain_services_def)
  from process_quiz_attempt_score_action [OF q, of "''user''" "[0]"] s1 [of "[0]"]
  have 1: "case process_quiz_attempt plain_services 0 ''user'' ''quiz'' [0] of
      Inr (a, s') \<Rightarrow> score a = 100 \<and> action (next_action a) = ''advance'' \<and> s' = 1
    | Inl e \<Rightarrow> False"
    unfolding c1 n by (auto simp: fl_one fl_hundred)
  from process_quiz_attempt_score_action [OF q, of "''user''" "[2]"] s1 [of "[2]"]
  have 2: "case process_quiz_attempt plain_services 0 ''user'' ''quiz'' [2] of
      Inr (a, s') \<Rightarrow> score a = 0 \<and> action (next_action a) = ''repeat'' \<and> s' = 1
    | Inl e \<Rightarrow> False"
    unfolding c2 n by (auto simp: fl_zero)
  from q 1 2 show ?thesis by blast
qed

text \<open>
  C10. When there are fewer answers than questions, \<open>process_quiz_attempt\<close> evaluates
  only the first pairs of question and answer: the results have exactly as many entries as
  the shorter of the two lists, in order and numbered from 0 (answers beyond the last
  question are ignored). The score still divides by the number of all questions, so a
  question without an answer counts as incorrect, and for a quiz with at least one
  question the score is in \<open>[0,100]\<close>.
\<close>

theorem process_quiz_attempt_short_answers:
  assumes "get_quiz_questions svc s quiz_id \<noteq> []"
  shows "\<exists>a s'. process_quiz_attempt svc s user_id quiz_id answers = Inr (a, s') \<and>
      length (results a) = min (length (get_quiz_questions svc s quiz_id)) (length answers) \<and>
      results a =
        map (\<lambda>(k, q, answer).
          \<lparr>question_id = k, user_answer = answer, result_correct_answer = correct_answer q,
           is_correct = equals_int (correct_answer q) answer,
           result_explanation = explanation q\<rparr>)
          (zip [0..<min (length (get_quiz_questions svc s quiz_id)) (length answers)]
            (zip (get_quiz_questions svc s quiz_id) answers)) \<and>
      correct_answers a = length (filter is_correct (results a)) \<and>
      correct_answers a \<le> min (length (get_quiz_questions svc s quiz_id)) (length answers) \<and>
      score a =
        fl (fl (of_nat (correct_answers a) /
                of_nat (length (get_quiz_questions svc s quiz_id))) * 100) \<and>
      0 \<le> score a \<and> score a \<le> 100"
proof -
  define qs where "qs = get_quiz_questions svc s quiz_id"
  define c where "c = fst (attempt_loop 0 0 [] (zip qs answers))"
  define rs where "rs = snd (attempt_loop 0 0 [] (zip qs answers))"
  have n: "0 < length qs" using assms unfolding qs_def by simp
  have cle: "c \<le> min (length qs) (length answers)"
    unfolding c_def by (rule attempt_loop_correct_le)
  then have cn: "c \<le> length qs" by simp
  have len: "length rs = min (length qs) (length answers)"
    unfolding rs_def attempt_loop_length by simp
  have rsm: "rs = map (\<lambda>(k, q, answer).
          \<lparr>question_id = k, user_answer = answer, result_correct_answer = correct_answer q,
           is_correct = equals_int (correct_answer q) answer,
           result_explanation = explanation q\<rparr>)
          (zip [0..<min (length qs) (length answers)] (zip qs answers))"
    unfolding rs_def attempt_loop_snd by simp
  have "length (filter is_correct rs) =
      length (filter (\<lambda>(q, answer). equals_int (correct_answer q) answer) (zip qs answers))"
  proof -
    have "filter is_correct rs = filter is_correct (snd (attempt_loop 0 0 [] (zip qs answers)))"
      unfolding rs_def ..
    have g: "length (filter is_correct (snd (attempt_loop i k acc ps))) =
        length (filter is_correct acc) +
        length (filter (\<lambda>(q, answer). equals_int (correct_answer q) answer) ps)"
      for i k acc ps
      by (induction ps arbitrary: i k acc) (auto simp: Let_def)
    show ?thesis unfolding rs_def g by simp
  qed
  then have cf: "c = length (filter is_correct rs)"
    unfolding c_def attempt_loop_fst by simp
  from score_bounds [OF cn n]
  have sb: "0 \<le> fl (fl (of_nat c / of_nat (length qs)) * 100) \<and>
      fl (fl (of_nat c / of_nat (length qs)) * 100) \<le> 100" .
  show ?thesis
    unfolding process_quiz_attempt_nonempty [OF assms]
    unfolding qs_def [symmetric] Let_def c_def [symmetric] rs_def [symmetric]
    using cle len rsm [symmetric] cf sb by simp
qed

theorem process_quiz_attempt_short_answers_witness:
  "get_quiz_questions plain_services 0 ''quiz'' \<noteq> [] \<and>
   (case process_quiz_attempt plain_services 0 ''user'' ''quiz'' [] of
      Inr (a, s') \<Rightarrow> results a = [] \<and> correct_answers a = 0 \<and> total_questions a = 1 \<and>
        score a = 0
    | Inl e \<Rightarrow> False) \<and>
   (case process_quiz_attempt plain_services 0 ''user'' ''quiz'' [0, 3] of
      Inr (a, s') \<Rightarrow> length (results a) = 1 \<and> correct_answers a = 1 \<and> score a = 100
    | Inl e \<Rightarrow> False)"
proof -
  have q: "get_quiz_questions plain_services 0 ''quiz'' \<noteq> []"
    by (simp add: plain_services_def generate_fallback_quiz_def)
  have g: "get_quiz_questions plain_services 0 ''quiz'' = generate_fallback_quiz []"
    by (simp add: plain_services_def)
  have t: "total_questions (fst p) = 1"
    if "process_quiz_attempt plain_services 0 ''user'' ''quiz'' answers = Inr p" for p answers
    using that unfolding process_quiz_attempt_nonempty [OF q]
    by (auto simp: Let_def g generate_fallback_quiz_def)
  from process_quiz_attempt_short_answers [OF q, of "''user''" "[]"] t [of "[]"]
  have 1: "case process_quiz_attempt plain_services 0 ''user'' ''quiz'' [] of
      Inr (a, s') \<Rightarrow> results a = [] \<and> correct_answers a = 0 \<and> total_questions a = 1 \<and>
        score a = 0
    | Inl e \<Rightarrow> False"
    unfolding g by (auto simp: generate_fallback_quiz_def fl_zero)
  from process_quiz_attempt_short_answers [OF q, of "''user''" "[0, 3]"]
  have 2: "case process_quiz_attempt plain_services 0 ''user'' ''quiz'' [0, 3] of
      Inr (a, s') \<Rightarrow> length (results a) = 1 \<and> correct_answers a = 1 \<and> score a = 100
    | Inl e \<Rightarrow> False"
    unfolding g by (auto simp: generate_fallback_quiz_def fl_one fl_hundred)
  from q 1 2 show ?thesis by blast
qed

end
